theory Spec2Isabelle
  imports Main
begin

section \<open>Data of process\_loinc.py\<close>

text \<open>
  A value that \<^verbatim>\<open>csv.DictReader\<close> puts into a row: a string, or \<^verbatim>\<open>None\<close> for a
  field a short line does not have. A row is the dict from column names to such values;
  the part lookup is a dict whose keys and values are taken from rows.
\<close>

datatype cell = Str string | PyNone

type_synonym row = "string \<rightharpoonup> cell"

type_synonym lookup = "cell \<rightharpoonup> cell"

text \<open>
  Exceptions: \<^verbatim>\<open>KeyError\<close> of a dict subscript, and whatever a call of one of the two
  service clients raises (carried with its message).
\<close>

datatype exn = KeyError string | ClientError string

text \<open>\<^verbatim>\<open>models.Distance\<close>, \<^verbatim>\<open>models.VectorParams\<close>, \<^verbatim>\<open>models.PointStruct\<close>.\<close>

datatype Distance = COSINE | EUCLID | DOT | MANHATTAN

record VectorParams =
  size_p :: nat
  distance :: Distance

record 'f PointStruct =
  id_p :: int
  vector :: "'f list"
  payload :: "string \<rightharpoonup> cell"

text \<open>The lines the script prints.\<close>

datatype line =
    Created string
  | CouldNotCreate string exn
  | Upserted100
  | UpsertedRemaining nat

section \<open>The two services\<close>

text \<open>
  A collection of the vector store and the store itself, collections by name. The points
  of a collection are kept as a list, so that holding one point per identifier is a
  property to prove and not one of the type.
\<close>

record 'f collection =
  config :: VectorParams
  points :: "'f PointStruct list"

type_synonym 'f qdrant = "string \<rightharpoonup> 'f collection"

record 'f upsert_call =
  collection_name :: string
  wait :: bool
  call_points :: "'f PointStruct list"

text \<open>
  What the services answer during one run, which the script does not control: the
  response of the \<open>k\<close>-th embedding call (for a model and an input text) is a dict or an
  exception; the call recreating the collection and the \<open>k\<close>-th upsert call may raise.
\<close>

record 'f services =
  ollama_embed :: "nat \<Rightarrow> string \<Rightarrow> string \<Rightarrow> exn + (string \<rightharpoonup> 'f list)"
  recreate_raises :: "string option"
  upsert_raises :: "nat \<Rightarrow> string option"

text \<open>
  The state a run acts on: the store, the embedding requests sent so far (model and
  input), the upsert calls issued so far, and the standard output.
\<close>

record 'f world =
  qdrant :: "'f qdrant"
  embed_log :: "(string \<times> string) list"
  upsert_log :: "'f upsert_call list"
  stdout :: "line list"

definition print :: "line \<Rightarrow> 'f world \<Rightarrow> 'f world" where
  "print l w = w\<lparr>stdout := stdout w @ [l]\<rparr>"

text \<open>
  Modelled from the spec: the vector index service is an external collaborator, of which
  the spec gives the interface: a collection has a name, a dimensionality and a distance
  metric; recreating a collection destroys the data it held; upsert is insert-or-replace
  keyed by point identifier. A call that raises leaves the store as it was.
\<close>

fun upsert_point :: "'f PointStruct \<Rightarrow> 'f PointStruct list \<Rightarrow> 'f PointStruct list" where
  "upsert_point p [] = [p]"
| "upsert_point p (q # qs) =
     (if id_p q = id_p p then p # qs else q # upsert_point p qs)"

definition upsert_points :: "'f PointStruct list \<Rightarrow> 'f PointStruct list \<Rightarrow> 'f PointStruct list" where
  "upsert_points ps qs = fold upsert_point ps qs"

definition recreate_collection ::
  "'f services \<Rightarrow> string \<Rightarrow> VectorParams \<Rightarrow> 'f world \<Rightarrow> (exn + bool) \<times> 'f world" where
  "recreate_collection env name vectors_config w =
     (case recreate_raises env of
        Some msg \<Rightarrow> (Inl (ClientError msg), w)
      | None \<Rightarrow>
          (Inr True,
           w\<lparr>qdrant := (qdrant w)(name \<mapsto> \<lparr>config = vectors_config, points = []\<rparr>)\<rparr>))"

definition upsert ::
  "'f services \<Rightarrow> string \<Rightarrow> bool \<Rightarrow> 'f PointStruct list \<Rightarrow> 'f world \<Rightarrow> (exn + unit) \<times> 'f world" where
  "upsert env name wt ps w =
     (let k = length (upsert_log w);
          w1 = w\<lparr>upsert_log :=
                 upsert_log w @ [\<lparr>collection_name = name, wait = wt, call_points = ps\<rparr>]\<rparr>
      in case upsert_raises env k of
           Some msg \<Rightarrow> (Inl (ClientError msg), w1)
         | None \<Rightarrow>
             (case qdrant w name of
                None \<Rightarrow> (Inl (ClientError ''Not found: Collection''), w1)
              | Some c \<Rightarrow>
                  (Inr (),
                   w1\<lparr>qdrant := (qdrant w)(name \<mapsto> c\<lparr>points := upsert_points ps (points c)\<rparr>)\<rparr>)))"

section \<open>Configuration\<close>

definition OLLAMA_MODEL :: string where
  "OLLAMA_MODEL = ''oscardp96/medcpt-article''"

definition COLLECTION_NAME :: string where
  "COLLECTION_NAME = ''loinc''"

section \<open>The functions of the script\<close>

text \<open>\<^verbatim>\<open>row[k]\<close>: the value, or \<^verbatim>\<open>KeyError\<close> when the row has no such column.\<close>

definition getitem :: "row \<Rightarrow> string \<Rightarrow> exn + cell" where
  "getitem r k = (case r k of None \<Rightarrow> Inl (KeyError k) | Some v \<Rightarrow> Inr v)"

definition bind_exn :: "exn + 'a \<Rightarrow> ('a \<Rightarrow> exn + 'b) \<Rightarrow> exn + 'b" where
  "bind_exn m f = (case m of Inl e \<Rightarrow> Inl e | Inr x \<Rightarrow> f x)"

text \<open>What an f-string writes for a value: the string itself, \<^verbatim>\<open>None\<close> for None.\<close>

fun fmt :: "cell \<Rightarrow> string" where
  "fmt (Str s) = s"
| "fmt PyNone = ''None''"

text \<open>
  \<^verbatim>\<open>get_embedding\<close>: one call of the embedding client, then the entry
  \<^verbatim>\<open>"embedding"\<close> of the response.
\<close>

definition get_embedding ::
  "'f services \<Rightarrow> string \<Rightarrow> 'f world \<Rightarrow> (exn + 'f list) \<times> 'f world" where
  "get_embedding env text w =
     (let k = length (embed_log w);
          w1 = w\<lparr>embed_log := embed_log w @ [(OLLAMA_MODEL, text)]\<rparr>
      in case ollama_embed env k OLLAMA_MODEL text of
           Inl e \<Rightarrow> (Inl e, w1)
         | Inr response \<Rightarrow>
             (case response ''embedding'' of
                None \<Rightarrow> (Inl (KeyError ''embedding''), w1)
              | Some v \<Rightarrow> (Inr v, w1)))"

text \<open>
  \<^verbatim>\<open>create_part_lookup\<close>: the loop over the rows of Part.csv. In the assignment
  \<^verbatim>\<open>part_lookup[row['PartNumber']] = row['PartName']\<close> the right-hand side is
  evaluated first.
\<close>

fun part_loop :: "row list \<Rightarrow> lookup \<Rightarrow> exn + lookup" where
  "part_loop [] part_lookup = Inr part_lookup"
| "part_loop (r # rs) part_lookup =
     (case getitem r ''PartName'' of
        Inl e \<Rightarrow> Inl e
      | Inr v \<Rightarrow>
          (case getitem r ''PartNumber'' of
             Inl e \<Rightarrow> Inl e
           | Inr k \<Rightarrow> part_loop rs (part_lookup(k \<mapsto> v))))"

definition create_part_lookup :: "row list \<Rightarrow> exn + lookup" where
  "create_part_lookup part_rows = part_loop part_rows Map.empty"

text \<open>\<^verbatim>\<open>part_lookup.get(row[f], row[f])\<close>.\<close>

definition dict_get :: "lookup \<Rightarrow> cell \<Rightarrow> cell \<Rightarrow> cell" where
  "dict_get part_lookup k dflt = (case part_lookup k of None \<Rightarrow> dflt | Some v \<Rightarrow> v)"

definition resolve :: "lookup \<Rightarrow> row \<Rightarrow> string \<Rightarrow> exn + cell" where
  "resolve part_lookup r f =
     bind_exn (getitem r f) (\<lambda>k. bind_exn (getitem r f) (\<lambda>d. Inr (dict_get part_lookup k d)))"

text \<open>The six values the loop body computes first (lines 55 to 60).\<close>

record resolved =
  component :: cell
  prop_p :: cell
  time_aspct :: cell
  system :: cell
  scale_typ :: cell
  method_typ :: cell

definition resolve_row :: "lookup \<Rightarrow> row \<Rightarrow> exn + resolved" where
  "resolve_row part_lookup r =
     bind_exn (getitem r ''COMPONENT'') (\<lambda>c.
     bind_exn (resolve part_lookup r ''PROPERTY'') (\<lambda>p.
     bind_exn (resolve part_lookup r ''TIME_ASPCT'') (\<lambda>t.
     bind_exn (resolve part_lookup r ''SYSTEM'') (\<lambda>s.
     bind_exn (resolve part_lookup r ''SCALE_TYP'') (\<lambda>sc.
     bind_exn (resolve part_lookup r ''METHOD_TYP'') (\<lambda>m.
       Inr \<lparr>component = c, prop_p = p, time_aspct = t, system = s,
            scale_typ = sc, method_typ = m\<rparr>))))))"

text \<open>The descriptive text (line 63).\<close>

definition text_to_embed :: "row \<Rightarrow> resolved \<Rightarrow> exn + string" where
  "text_to_embed r v =
     bind_exn (getitem r ''LONG_COMMON_NAME'') (\<lambda>n.
     bind_exn (getitem r ''CLASS'') (\<lambda>c.
       Inr (''This LOINC term is for '' @ [CHR 0x27] @ fmt n @ [CHR 0x27]
            @ ''. Component: '' @ fmt (component v)
            @ ''. Property: '' @ fmt (prop_p v)
            @ ''. Time Aspect: '' @ fmt (time_aspct v)
            @ ''. System: '' @ fmt (system v)
            @ ''. Scale: '' @ fmt (scale_typ v)
            @ ''. Method: '' @ fmt (method_typ v)
            @ ''. Class: '' @ fmt c @ ''.'')))"

text \<open>The payload (lines 69 to 78).\<close>

definition make_payload :: "row \<Rightarrow> resolved \<Rightarrow> exn + (string \<rightharpoonup> cell)" where
  "make_payload r v =
     bind_exn (getitem r ''LONG_COMMON_NAME'') (\<lambda>n.
     bind_exn (getitem r ''LOINC_NUM'') (\<lambda>c.
       Inr [''Fully-Specified Name'' \<mapsto> n,
            ''LOINC code'' \<mapsto> c,
            ''Component'' \<mapsto> component v,
            ''Property'' \<mapsto> prop_p v,
            ''Time'' \<mapsto> time_aspct v,
            ''System'' \<mapsto> system v,
            ''Scale'' \<mapsto> scale_typ v,
            ''Method'' \<mapsto> method_typ v]))"

text \<open>
  The part of the loop body that makes the point of row \<open>i\<close> (lines 55 to 85): the
  first exception ends it.
\<close>

definition build_point ::
  "'f services \<Rightarrow> lookup \<Rightarrow> nat \<Rightarrow> row \<Rightarrow> 'f world \<Rightarrow> (exn + 'f PointStruct) \<times> 'f world" where
  "build_point env part_lookup i r w =
     (case resolve_row part_lookup r of
        Inl e \<Rightarrow> (Inl e, w)
      | Inr v \<Rightarrow>
          (case text_to_embed r v of
             Inl e \<Rightarrow> (Inl e, w)
           | Inr text \<Rightarrow>
               (case get_embedding env text w of
                  (Inl e, w1) \<Rightarrow> (Inl e, w1)
                | (Inr embedding, w1) \<Rightarrow>
                    (case make_payload r v of
                       Inl e \<Rightarrow> (Inl e, w1)
                     | Inr pl \<Rightarrow>
                         (Inr \<lparr>id_p = int i + 1, vector = embedding, payload = pl\<rparr>, w1)))))"

text \<open>
  The loop over the rows of the LOINC table, from \<^verbatim>\<open>enumerate\<close> index \<open>i\<close> with the
  open batch \<open>pts\<close>; it returns the batch left open when the rows are exhausted.
\<close>

fun loop ::
  "'f services \<Rightarrow> lookup \<Rightarrow> nat \<Rightarrow> row list \<Rightarrow> 'f PointStruct list \<Rightarrow> 'f world
     \<Rightarrow> (exn + 'f PointStruct list) \<times> 'f world" where
  "loop env part_lookup i [] pts w = (Inr pts, w)"
| "loop env part_lookup i (r # rs) pts w =
     (case build_point env part_lookup i r w of
        (Inl e, w1) \<Rightarrow> (Inl e, w1)
      | (Inr p, w1) \<Rightarrow>
          (if length (pts @ [p]) = 100 then
             (case upsert env COLLECTION_NAME True (pts @ [p]) w1 of
                (Inl e, w2) \<Rightarrow> (Inl e, w2)
              | (Inr u, w2) \<Rightarrow> loop env part_lookup (i + 1) rs [] (print Upserted100 w2))
           else loop env part_lookup (i + 1) rs (pts @ [p]) w1))"

text \<open>
  \<^verbatim>\<open>main\<close>, run on the rows of Part.csv and of the LOINC table against a store:
  the outcome is an exception that escapes or a normal return.
\<close>

definition main ::
  "'f services \<Rightarrow> row list \<Rightarrow> row list \<Rightarrow> 'f qdrant \<Rightarrow> (exn + unit) \<times> 'f world" where
  "main env part_rows loinc_rows store =
     (let w0 = \<lparr>qdrant = store, embed_log = [], upsert_log = [], stdout = []\<rparr> in
      case create_part_lookup part_rows of
        Inl e \<Rightarrow> (Inl e, w0)
      | Inr part_lookup \<Rightarrow>
          (case recreate_collection env COLLECTION_NAME
                  \<lparr>size_p = 768, distance = COSINE\<rparr> w0 of
             (Inl e, w1) \<Rightarrow> (Inr (), print (CouldNotCreate COLLECTION_NAME e) w1)
           | (Inr b, w1) \<Rightarrow>
               (case loop env part_lookup 0 loinc_rows [] (print (Created COLLECTION_NAME) w1) of
                  (Inl e, w2) \<Rightarrow> (Inl e, w2)
                | (Inr pts, w2) \<Rightarrow>
                    (if pts \<noteq> [] then
                       (case upsert env COLLECTION_NAME True pts w2 of
                          (Inl e, w3) \<Rightarrow> (Inl e, w3)
                        | (Inr u, w3) \<Rightarrow> (Inr (), print (UpsertedRemaining (length pts)) w3))
                     else (Inr (), w2)))))"

text \<open>
  The exit code of the process running \<^verbatim>\<open>main()\<close> as a script: 0 when \<^verbatim>\<open>main\<close>
  returns, 1 when an exception escapes it.
\<close>

definition exit_code :: "(exn + unit) \<times> 'f world \<Rightarrow> int" where
  "exit_code res = (case fst res of Inl e \<Rightarrow> 1 | Inr u \<Rightarrow> 0)"

section \<open>Auxiliary notions for the statements\<close>

text \<open>
  The point the loop body makes of row \<open>i\<close> when nothing raises, the upsert call the
  script issues for a batch, and the points of all upsert calls a run has issued, in order
  (in a run that completes, every one of these calls has returned).
\<close>

definition point_of_row :: "'f services \<Rightarrow> lookup \<Rightarrow> nat \<Rightarrow> row \<Rightarrow> 'f PointStruct \<Rightarrow> bool" where
  "point_of_row env pl i r p \<longleftrightarrow>
     id_p p = int i + 1 \<and>
     (\<exists>v text resp. resolve_row pl r = Inr v \<and> text_to_embed r v = Inr text
        \<and> ollama_embed env i OLLAMA_MODEL text = Inr resp
        \<and> resp ''embedding'' = Some (vector p)
        \<and> make_payload r v = Inr (payload p))"

definition batch_call :: "'f PointStruct list \<Rightarrow> 'f upsert_call" where
  "batch_call b = \<lparr>collection_name = COLLECTION_NAME, wait = True, call_points = b\<rparr>"

definition committed :: "'f world \<Rightarrow> 'f PointStruct list" where
  "committed w = concat (map call_points (upsert_log w))"

text \<open>
  For the statements about any run, completing or not: the collection holds only points of
  this run's upsert calls; the \<open>k\<close>-th embedding request of the run raised \<open>e\<close>; no
  request raised; a request that raised is the last one and decides the outcome.
\<close>

definition only_new_points ::
  "'f qdrant \<Rightarrow> 'f world \<Rightarrow> bool" where
  "only_new_points store w \<longleftrightarrow>
     (\<exists>c. qdrant w COLLECTION_NAME = Some c
         \<and> config c = \<lparr>size_p = 768, distance = COSINE\<rparr>
         \<and> set (points c) \<subseteq> set (committed w))
     \<and> (\<forall>name. name \<noteq> COLLECTION_NAME \<longrightarrow> qdrant w name = store name)"

definition request_raised :: "'f services \<Rightarrow> 'f world \<Rightarrow> nat \<Rightarrow> exn \<Rightarrow> bool" where
  "request_raised env w k e \<longleftrightarrow>
     ollama_embed env k (fst (embed_log w ! k)) (snd (embed_log w ! k)) = Inl e"

definition requests_answered :: "'f services \<Rightarrow> 'f world \<Rightarrow> bool" where
  "requests_answered env w \<longleftrightarrow> (\<forall>k<length (embed_log w). \<forall>e. \<not> request_raised env w k e)"

definition failure_is_final :: "'f services \<Rightarrow> exn + 'a \<Rightarrow> 'f world \<Rightarrow> bool" where
  "failure_is_final env res w \<longleftrightarrow>
     (\<forall>k<length (embed_log w). \<forall>e. request_raised env w k e
        \<longrightarrow> res = Inl e \<and> Suc k = length (embed_log w))"

text \<open>
  Two states of a run that differ at most in what the store holds: the same requests, calls
  and output so far, and the collection present in both or in neither.
\<close>

definition same_calls :: "'f world \<Rightarrow> 'f world \<Rightarrow> bool" where
  "same_calls w v \<longleftrightarrow>
     embed_log w = embed_log v \<and> upsert_log w = upsert_log v \<and> stdout w = stdout v
     \<and> (qdrant w COLLECTION_NAME = None \<longleftrightarrow> qdrant v COLLECTION_NAME = None)"

section \<open>Sample data\<close>

definition sample_part_rows :: "row list" where
  "sample_part_rows =
     [[''PartNumber'' \<mapsto> Str ''LP6118-6'', ''PartName'' \<mapsto> Str ''Glucose''],
      [''PartNumber'' \<mapsto> Str ''LP6960-1'', ''PartName'' \<mapsto> Str ''Time''],
      [''PartNumber'' \<mapsto> Str ''LP6118-6'', ''PartName'' \<mapsto> Str ''Glucose (revised)'']]"

definition sample_row :: row where
  "sample_row =
     [''LOINC_NUM'' \<mapsto> Str ''2345-7'',
      ''COMPONENT'' \<mapsto> Str ''LP6118-6'',
      ''PROPERTY'' \<mapsto> Str ''MCnc'',
      ''TIME_ASPCT'' \<mapsto> Str ''LP6960-1'',
      ''SYSTEM'' \<mapsto> Str ''Ser/Plas'',
      ''SCALE_TYP'' \<mapsto> Str ''Qn'',
      ''METHOD_TYP'' \<mapsto> Str [],
      ''CLASS'' \<mapsto> Str ''CHEM'',
      ''LONG_COMMON_NAME'' \<mapsto> Str ''Glucose [Mass/volume] in Serum or Plasma'']"

definition sample_lookup :: lookup where
  "sample_lookup = [Str ''LP6960-1'' \<mapsto> Str ''Time'', Str ''LP6118-6'' \<mapsto> Str ''Glucose (revised)'']"

definition sample_services :: "int services" where
  "sample_services =
     \<lparr>ollama_embed = (\<lambda>k model input. Inr [''embedding'' \<mapsto> [int k, 0]]),
      recreate_raises = None,
      upsert_raises = (\<lambda>k. None)\<rparr>"

definition sample_world :: "int world" where
  "sample_world = \<lparr>qdrant = Map.empty, embed_log = [], upsert_log = [], stdout = []\<rparr>"

definition strict_services :: "int services" where
  "strict_services =
     \<lparr>ollama_embed = (\<lambda>k model input. Inr [''embedding'' \<mapsto> [int k, 0]]),
      recreate_raises = None,
      upsert_raises = (\<lambda>k. Some ''Vector dimension error: expected dim: 768, got 2'')\<rparr>"

definition down_services :: "int services" where
  "down_services =
     \<lparr>ollama_embed = (\<lambda>k model input. Inr [''embedding'' \<mapsto> [int k, 0]]),
      recreate_raises = Some ''Connection refused'',
      upsert_raises = (\<lambda>k. None)\<rparr>"

definition flaky_services :: "int services" where
  "flaky_services =
     \<lparr>ollama_embed = (\<lambda>k model input.
         if k = 0 then Inl (ClientError ''timed out'') else Inr [''embedding'' \<mapsto> [int k, 0]]),
      recreate_raises = None,
      upsert_raises = (\<lambda>k. None)\<rparr>"

definition old_point :: "int PointStruct" where
  "old_point = \<lparr>id_p = 7, vector = [5, 5], payload = [''LOINC code'' \<mapsto> Str ''718-7'']\<rparr>"

definition matching_store :: "int qdrant" where
  "matching_store =
     [''loinc'' \<mapsto> \<lparr>config = \<lparr>size_p = 768, distance = COSINE\<rparr>, points = [old_point]\<rparr>]"

definition mismatched_store :: "int qdrant" where
  "mismatched_store =
     [''loinc'' \<mapsto> \<lparr>config = \<lparr>size_p = 2, distance = DOT\<rparr>, points = [old_point]\<rparr>]"

section \<open>The store and the loop body\<close>

lemma build_point_frame:
  "build_point env pl i r w = (res, w1) \<Longrightarrow>
     qdrant w1 = qdrant w \<and> upsert_log w1 = upsert_log w \<and> stdout w1 = stdout w"
  by (auto simp: build_point_def get_embedding_def Let_def split: sum.splits option.splits prod.splits)

lemma build_point_Inr:
  assumes "build_point env pl i r w = (Inr p, w1)"
  shows "id_p p = int i + 1"
    and "\<exists>v text resp. resolve_row pl r = Inr v \<and> text_to_embed r v = Inr text
           \<and> ollama_embed env (length (embed_log w)) OLLAMA_MODEL text = Inr resp
           \<and> resp ''embedding'' = Some (vector p)
           \<and> make_payload r v = Inr (payload p)
           \<and> embed_log w1 = embed_log w @ [(OLLAMA_MODEL, text)]"
  using assms
  by (auto simp: build_point_def get_embedding_def Let_def split: sum.splits option.splits prod.splits)

lemma upsert_Inr:
  assumes "upsert env name wt ps w = (Inr u, w1)"
  shows "upsert_log w1 = upsert_log w @ [\<lparr>collection_name = name, wait = wt, call_points = ps\<rparr>]"
    and "embed_log w1 = embed_log w" and "stdout w1 = stdout w"
    and "\<exists>c. qdrant w name = Some c \<and>
           qdrant w1 = (qdrant w)(name \<mapsto> c\<lparr>points := upsert_points ps (points c)\<rparr>)"
  using assms
  by (auto simp: upsert_def Let_def split: sum.splits option.splits prod.splits)

lemma upsert_point_fresh:
  "id_p p \<notin> id_p ` set qs \<Longrightarrow> upsert_point p qs = qs @ [p]"
  by (induction qs) auto

lemma fold_upsert_point_fresh:
  "distinct (map id_p (qs @ ps)) \<Longrightarrow> fold upsert_point ps qs = qs @ ps"
proof (induction ps arbitrary: qs)
  case Nil
  then show ?case by simp
next
  case (Cons p ps)
  from Cons.prems have "id_p p \<notin> id_p ` set qs" by auto
  then have "upsert_point p qs = qs @ [p]" by (rule upsert_point_fresh)
  moreover from Cons.prems have "distinct (map id_p ((qs @ [p]) @ ps))" by simp
  ultimately show ?case using Cons.IH [of "qs @ [p]"] by simp
qed

section \<open>A run that completes\<close>

lemma build_point_of_row:
  "build_point env pl i r w = (Inr p, w1) \<Longrightarrow> length (embed_log w) = i \<Longrightarrow>
     point_of_row env pl i r p \<and> length (embed_log w1) = i + 1"
  using build_point_Inr [of env pl i r w p w1]
  unfolding point_of_row_def by auto

lemma print_simps [simp]:
  "qdrant (print l w) = qdrant w" "embed_log (print l w) = embed_log w"
  "upsert_log (print l w) = upsert_log w" "stdout (print l w) = stdout w @ [l]"
  by (simp_all add: print_def)

lemma loop_Inr:
  assumes "loop env pl i rs pts w = (Inr rest, w')"
    and "length pts < 100" and "length (embed_log w) = i"
    and "qdrant w COLLECTION_NAME = Some c"
  shows "\<exists>bs new.
      upsert_log w' = upsert_log w @ map batch_call bs
    \<and> (\<forall>b\<in>set bs. length b = 100) \<and> length rest < 100
    \<and> concat bs @ rest = pts @ new
    \<and> length new = length rs
    \<and> (\<forall>j<length rs. point_of_row env pl (i + j) (rs ! j) (new ! j))
    \<and> length (embed_log w') = i + length rs
    \<and> qdrant w' = (qdrant w)(COLLECTION_NAME \<mapsto>
          c\<lparr>points := fold upsert_point (concat bs) (points c)\<rparr>)"
  using assms
proof (induction rs arbitrary: i pts w c)
  case Nil
  then have "rest = pts" "w' = w" by simp_all
  with Nil show ?case
    by (intro exI [of _ "[]"]) (auto simp: fun_upd_idem)
next
  case (Cons r rs)
  from Cons.prems(1) obtain p w1 where bp: "build_point env pl i r w = (Inr p, w1)"
    by (auto split: prod.splits sum.splits)
  from build_point_of_row [OF bp Cons.prems(3)]
  have por: "point_of_row env pl i r p" and el1: "length (embed_log w1) = i + 1" by simp_all
  from build_point_frame [OF bp]
  have fr: "qdrant w1 = qdrant w" "upsert_log w1 = upsert_log w" by simp_all
  show ?case
  proof (cases "length (pts @ [p]) = 100")
    case True
    with Cons.prems(1) bp obtain u w2 where
      up: "upsert env COLLECTION_NAME True (pts @ [p]) w1 = (Inr u, w2)"
      and lp: "loop env pl (i + 1) rs [] (print Upserted100 w2) = (Inr rest, w')"
      by (auto split: prod.splits sum.splits)
    from upsert_Inr [OF up] fr Cons.prems(4)
    have ul2: "upsert_log w2 = upsert_log w @ [batch_call (pts @ [p])]"
      and el2: "embed_log w2 = embed_log w1"
      and q2: "qdrant w2 = (qdrant w)(COLLECTION_NAME \<mapsto>
                 c\<lparr>points := upsert_points (pts @ [p]) (points c)\<rparr>)"
      by (auto simp: batch_call_def)
    let ?c2 = "c\<lparr>points := upsert_points (pts @ [p]) (points c)\<rparr>"
    have "\<exists>bs new.
        upsert_log w' = upsert_log (print Upserted100 w2) @ map batch_call bs
      \<and> (\<forall>b\<in>set bs. length b = 100) \<and> length rest < 100
      \<and> concat bs @ rest = [] @ new
      \<and> length new = length rs
      \<and> (\<forall>j<length rs. point_of_row env pl (i + 1 + j) (rs ! j) (new ! j))
      \<and> length (embed_log w') = i + 1 + length rs
      \<and> qdrant w' = (qdrant (print Upserted100 w2))(COLLECTION_NAME \<mapsto>
            ?c2\<lparr>points := fold upsert_point (concat bs) (points ?c2)\<rparr>)"
      by (rule Cons.IH [OF lp]) (simp_all add: el2 el1 q2)
    then obtain bs new where ih:
      "upsert_log w' = upsert_log w2 @ map batch_call bs"
      "\<forall>b\<in>set bs. length b = 100" "length rest < 100"
      "concat bs @ rest = new" "length new = length rs"
      "\<forall>j<length rs. point_of_row env pl (i + 1 + j) (rs ! j) (new ! j)"
      "length (embed_log w') = i + 1 + length rs"
      "qdrant w' = (qdrant w2)(COLLECTION_NAME \<mapsto>
            ?c2\<lparr>points := fold upsert_point (concat bs) (points ?c2)\<rparr>)"
      by auto
    have idx: "\<forall>j<length (r # rs). point_of_row env pl (i + j) ((r # rs) ! j) ((p # new) ! j)"
    proof (intro allI impI)
      fix j assume "j < length (r # rs)"
      then show "point_of_row env pl (i + j) ((r # rs) ! j) ((p # new) ! j)"
        using por ih(6) by (cases j) auto
    qed
    show ?thesis
      apply (rule exI [of _ "(pts @ [p]) # bs"])
      apply (rule exI [of _ "p # new"])
      using ih True idx
      by (simp add: ul2 q2 upsert_points_def)
  next
    case False
    with Cons.prems(1) bp have
      lp: "loop env pl (i + 1) rs (pts @ [p]) w1 = (Inr rest, w')"
      by (auto split: prod.splits sum.splits)
    from False Cons.prems(2) have lt: "length (pts @ [p]) < 100" by simp
    have "\<exists>bs new.
        upsert_log w' = upsert_log w1 @ map batch_call bs
      \<and> (\<forall>b\<in>set bs. length b = 100) \<and> length rest < 100
      \<and> concat bs @ rest = (pts @ [p]) @ new
      \<and> length new = length rs
      \<and> (\<forall>j<length rs. point_of_row env pl (i + 1 + j) (rs ! j) (new ! j))
      \<and> length (embed_log w') = i + 1 + length rs
      \<and> qdrant w' = (qdrant w1)(COLLECTION_NAME \<mapsto>
            c\<lparr>points := fold upsert_point (concat bs) (points c)\<rparr>)"
      by (rule Cons.IH [OF lp lt]) (simp_all add: el1 fr Cons.prems(4))
    then obtain bs new where ih:
      "upsert_log w' = upsert_log w1 @ map batch_call bs"
      "\<forall>b\<in>set bs. length b = 100" "length rest < 100"
      "concat bs @ rest = (pts @ [p]) @ new" "length new = length rs"
      "\<forall>j<length rs. point_of_row env pl (i + 1 + j) (rs ! j) (new ! j)"
      "length (embed_log w') = i + 1 + length rs"
      "qdrant w' = (qdrant w1)(COLLECTION_NAME \<mapsto>
            c\<lparr>points := fold upsert_point (concat bs) (points c)\<rparr>)"
      by auto
    have idx: "\<forall>j<length (r # rs). point_of_row env pl (i + j) ((r # rs) ! j) ((p # new) ! j)"
    proof (intro allI impI)
      fix j assume "j < length (r # rs)"
      then show "point_of_row env pl (i + j) ((r # rs) ! j) ((p # new) ! j)"
        using por ih(6) by (cases j) auto
    qed
    show ?thesis
      apply (rule exI [of _ bs])
      apply (rule exI [of _ "p # new"])
      using ih idx
      by (simp add: fr)
  qed
qed

lemma ids_of_rows:
  assumes "length new = n" and "\<forall>j<n. point_of_row env pl j (rs ! j) (new ! j)"
  shows "map id_p new = map (\<lambda>j. int j + 1) [0..<n]"
  using assms by (intro nth_equalityI) (auto simp: point_of_row_def)

lemma distinct_row_ids: "distinct (map (\<lambda>j. int j + 1) [0..<n])"
  by (simp add: distinct_map inj_on_def)

lemma main_Inr:
  assumes run: "main env part_rows loinc_rows store = (Inr u, w')"
    and ok: "recreate_raises env = None"
  shows "\<exists>pl bs. create_part_lookup part_rows = Inr pl
    \<and> upsert_log w' = map batch_call bs
    \<and> (\<forall>b\<in>set bs. 0 < length b \<and> length b \<le> 100)
    \<and> (\<forall>b\<in>set (butlast bs). length b = 100)
    \<and> length (concat bs) = length loinc_rows
    \<and> (\<forall>j<length loinc_rows. point_of_row env pl j (loinc_rows ! j) (concat bs ! j))
    \<and> length (embed_log w') = length loinc_rows
    \<and> qdrant w' = store(COLLECTION_NAME \<mapsto>
          \<lparr>config = \<lparr>size_p = 768, distance = COSINE\<rparr>, points = concat bs\<rparr>)"
proof -
  let ?c = "\<lparr>config = \<lparr>size_p = 768, distance = COSINE\<rparr>, points = []\<rparr> :: 'a collection"
  let ?w1 = "\<lparr>qdrant = store(COLLECTION_NAME \<mapsto> ?c), embed_log = [],
              upsert_log = [], stdout = []\<rparr> :: 'a world"
  let ?w1p = "print (Created COLLECTION_NAME) ?w1"
  from run ok obtain pl where cpl: "create_part_lookup part_rows = Inr pl"
    by (auto simp: main_def Let_def split: sum.splits)
  from run ok cpl obtain pts w2 where
    lp: "loop env pl 0 loinc_rows [] ?w1p = (Inr pts, w2)"
    and fin: "(pts = [] \<and> w' = w2) \<or>
              (pts \<noteq> [] \<and> (\<exists>v w3. upsert env COLLECTION_NAME True pts w2 = (Inr v, w3)
                 \<and> w' = print (UpsertedRemaining (length pts)) w3))"
    by (auto simp: main_def Let_def recreate_collection_def
             split: sum.splits prod.splits if_splits)
  have "\<exists>bs new.
      upsert_log w2 = upsert_log ?w1p @ map batch_call bs
    \<and> (\<forall>b\<in>set bs. length b = 100) \<and> length pts < 100
    \<and> concat bs @ pts = [] @ new
    \<and> length new = length loinc_rows
    \<and> (\<forall>j<length loinc_rows. point_of_row env pl (0 + j) (loinc_rows ! j) (new ! j))
    \<and> length (embed_log w2) = 0 + length loinc_rows
    \<and> qdrant w2 = (qdrant ?w1p)(COLLECTION_NAME \<mapsto>
          ?c\<lparr>points := fold upsert_point (concat bs) (points ?c)\<rparr>)"
    by (rule loop_Inr [OF lp]) simp_all
  then obtain bs where l:
    "upsert_log w2 = map batch_call bs"
    "\<forall>b\<in>set bs. length b = 100" "length pts < 100"
    "length (concat bs @ pts) = length loinc_rows"
    "\<forall>j<length loinc_rows. point_of_row env pl j (loinc_rows ! j) ((concat bs @ pts) ! j)"
    "length (embed_log w2) = length loinc_rows"
    "qdrant w2 = store(COLLECTION_NAME \<mapsto>
          \<lparr>config = \<lparr>size_p = 768, distance = COSINE\<rparr>,
           points = fold upsert_point (concat bs) []\<rparr>)"
    by auto
  from ids_of_rows [OF l(4) l(5)]
  have dist: "distinct (map id_p (concat bs @ pts))"
    by (simp only: distinct_row_ids)
  then have "distinct (map id_p ([] @ concat bs))" by simp
  then have f1: "fold upsert_point (concat bs) [] = concat bs"
    using fold_upsert_point_fresh [of "[]" "concat bs"] by simp
  from fin show ?thesis
  proof
    assume a: "pts = [] \<and> w' = w2"
    show ?thesis
      apply (rule exI [of _ pl], rule exI [of _ bs])
      using a l cpl f1 by (auto dest: in_set_butlastD)
  next
    assume a: "pts \<noteq> [] \<and> (\<exists>v w3. upsert env COLLECTION_NAME True pts w2 = (Inr v, w3)
                 \<and> w' = print (UpsertedRemaining (length pts)) w3)"
    then obtain v w3 where up: "upsert env COLLECTION_NAME True pts w2 = (Inr v, w3)"
      and w': "w' = print (UpsertedRemaining (length pts)) w3" and ne: "pts \<noteq> []"
      by auto
    from dist have "distinct (map id_p (concat bs @ pts))" .
    then have f2: "fold upsert_point pts (concat bs) = concat bs @ pts"
      by (rule fold_upsert_point_fresh)
    from upsert_Inr [OF up] l(1) l(7) f1
    have ul3: "upsert_log w3 = map batch_call (bs @ [pts])"
      and el3: "embed_log w3 = embed_log w2"
      and q3: "qdrant w3 = store(COLLECTION_NAME \<mapsto>
          \<lparr>config = \<lparr>size_p = 768, distance = COSINE\<rparr>, points = concat bs @ pts\<rparr>)"
      by (auto simp: batch_call_def upsert_points_def f2)
    show ?thesis
      apply (rule exI [of _ pl], rule exI [of _ "bs @ [pts]"])
      using ne l cpl w' ul3 el3 q3 by auto
  qed
qed

section \<open>The part lookup\<close>

lemma part_loop_spec:
  assumes "\<forall>r\<in>set rs. r ''PartNumber'' \<noteq> None \<and> r ''PartName'' \<noteq> None"
  shows "\<exists>m. part_loop rs pl = Inr m
    \<and> (\<forall>k. (\<forall>r\<in>set rs. r ''PartNumber'' \<noteq> Some k) \<longrightarrow> m k = pl k)
    \<and> (\<forall>i k. i < length rs \<and> (rs ! i) ''PartNumber'' = Some k
           \<and> (\<forall>j. i < j \<and> j < length rs \<longrightarrow> (rs ! j) ''PartNumber'' \<noteq> Some k)
           \<longrightarrow> m k = (rs ! i) ''PartName'')"
  using assms
proof (induction rs arbitrary: pl)
  case Nil
  then show ?case by simp
next
  case (Cons r rs)
  from Cons.prems obtain k0 v0 where r: "r ''PartNumber'' = Some k0" "r ''PartName'' = Some v0"
    by auto
  from Cons.prems have "\<forall>r\<in>set rs. r ''PartNumber'' \<noteq> None \<and> r ''PartName'' \<noteq> None"
    by simp
  from Cons.IH [OF this, of "pl(k0 \<mapsto> v0)"] obtain m where m:
    "part_loop rs (pl(k0 \<mapsto> v0)) = Inr m"
    "\<forall>k. (\<forall>r\<in>set rs. r ''PartNumber'' \<noteq> Some k) \<longrightarrow> m k = (pl(k0 \<mapsto> v0)) k"
    "\<forall>i k. i < length rs \<and> (rs ! i) ''PartNumber'' = Some k
           \<and> (\<forall>j. i < j \<and> j < length rs \<longrightarrow> (rs ! j) ''PartNumber'' \<noteq> Some k)
           \<longrightarrow> m k = (rs ! i) ''PartName''"
    by blast
  have run: "part_loop (r # rs) pl = Inr m"
    using r m(1) by (simp add: getitem_def)
  have keep: "\<forall>k. (\<forall>r'\<in>set (r # rs). r' ''PartNumber'' \<noteq> Some k) \<longrightarrow> m k = pl k"
    using m(2) r(1) by auto
  have last: "m k = ((r # rs) ! i) ''PartName''"
    if i: "i < length (r # rs)" and key: "((r # rs) ! i) ''PartNumber'' = Some k"
      and later: "\<forall>j. i < j \<and> j < length (r # rs) \<longrightarrow> ((r # rs) ! j) ''PartNumber'' \<noteq> Some k"
    for i k
  proof (cases i)
    case 0
    with key r(1) have k: "k = k0" by simp
    have "\<forall>r'\<in>set rs. r' ''PartNumber'' \<noteq> Some k"
    proof
      fix r' assume "r' \<in> set rs"
      then obtain j where j: "j < length rs" "rs ! j = r'" by (auto simp: in_set_conv_nth)
      with later 0 have "((r # rs) ! Suc j) ''PartNumber'' \<noteq> Some k" by auto
      with j show "r' ''PartNumber'' \<noteq> Some k" by simp
    qed
    with m(2) have "m k = (pl(k0 \<mapsto> v0)) k" by blast
    with k r(2) 0 show ?thesis by simp
  next
    case (Suc i')
    with i key have a: "i' < length rs" "(rs ! i') ''PartNumber'' = Some k" by simp_all
    have "\<forall>j. i' < j \<and> j < length rs \<longrightarrow> (rs ! j) ''PartNumber'' \<noteq> Some k"
    proof (intro allI impI)
      fix j assume "i' < j \<and> j < length rs"
      with later Suc have "((r # rs) ! Suc j) ''PartNumber'' \<noteq> Some k" by auto
      then show "(rs ! j) ''PartNumber'' \<noteq> Some k" by simp
    qed
    with m(3) a have "m k = (rs ! i') ''PartName''" by blast
    with Suc show ?thesis by simp
  qed
  from run keep last show ?case by blast
qed

text \<open>
  Claim C9: when several rows of the lookup source have the same PartNumber, the lookup
  built by \<^verbatim>\<open>create_part_lookup\<close> maps that PartNumber to the PartName of the last
  such row in file order, and loading does not fail on the duplicates: for rows that all
  have the two columns, the function returns a lookup, and the row at position \<open>i\<close>
  decides the entry of its PartNumber when no later row has the same PartNumber.
\<close>

theorem create_part_lookup_last_row_wins:
  assumes "\<forall>r\<in>set part_rows. r ''PartNumber'' \<noteq> None \<and> r ''PartName'' \<noteq> None"
    and "i < length part_rows"
    and "(part_rows ! i) ''PartNumber'' = Some k"
    and "\<forall>j. i < j \<and> j < length part_rows \<longrightarrow> (part_rows ! j) ''PartNumber'' \<noteq> Some k"
  shows "\<exists>m. create_part_lookup part_rows = Inr m \<and> m k = (part_rows ! i) ''PartName''"
proof -
  from part_loop_spec [OF assms(1), of Map.empty] obtain m where
    "part_loop part_rows Map.empty = Inr m"
    "\<forall>i k. i < length part_rows \<and> (part_rows ! i) ''PartNumber'' = Some k
           \<and> (\<forall>j. i < j \<and> j < length part_rows \<longrightarrow> (part_rows ! j) ''PartNumber'' \<noteq> Some k)
           \<longrightarrow> m k = (part_rows ! i) ''PartName''"
    by blast
  with assms(2-4) show ?thesis
    unfolding create_part_lookup_def by blast
qed

theorem create_part_lookup_last_row_wins_witness:
  "\<exists>m. create_part_lookup sample_part_rows = Inr m
      \<and> m (Str ''LP6118-6'') = Some (Str ''Glucose (revised)'')"
proof -
  have cols: "\<forall>r\<in>set sample_part_rows. r ''PartNumber'' \<noteq> None \<and> r ''PartName'' \<noteq> None"
    by (simp add: sample_part_rows_def)
  have i: "(2::nat) < length sample_part_rows"
    by (simp add: sample_part_rows_def)
  have key: "(sample_part_rows ! 2) ''PartNumber'' = Some (Str ''LP6118-6'')"
    by (simp add: sample_part_rows_def)
  have later: "\<forall>j. 2 < j \<and> j < length sample_part_rows
                 \<longrightarrow> (sample_part_rows ! j) ''PartNumber'' \<noteq> Some (Str ''LP6118-6'')"
    by (simp add: sample_part_rows_def)
  have "(sample_part_rows ! 2) ''PartName'' = Some (Str ''Glucose (revised)'')"
    by (simp add: sample_part_rows_def)
  with create_part_lookup_last_row_wins [OF cols i key later] show ?thesis by simp
qed

lemma sample_lookup_eq: "create_part_lookup sample_part_rows = Inr sample_lookup"
  by (simp add: create_part_lookup_def sample_part_rows_def sample_lookup_def getitem_def)

section \<open>A run in which nothing raises\<close>

text \<open>
  When every row has its columns, every embedding call is answered with a response that
  has an \<^verbatim>\<open>"embedding"\<close> entry, and no call to the store raises, \<^verbatim>\<open>main\<close>
  returns normally: the statements below about runs that complete are about all such runs.
\<close>

lemma build_point_total:
  assumes cols: "\<forall>f\<in>{''COMPONENT'', ''PROPERTY'', ''TIME_ASPCT'', ''SYSTEM'', ''SCALE_TYP'',
      ''METHOD_TYP'', ''LONG_COMMON_NAME'', ''CLASS'', ''LOINC_NUM''}. r f \<noteq> None"
    and answers: "\<forall>k tx. \<exists>resp v. ollama_embed env k OLLAMA_MODEL tx = Inr resp
                    \<and> resp ''embedding'' = Some v"
  shows "\<exists>p w1. build_point env pl i r w = (Inr p, w1)"
proof -
  from cols obtain c p t s sc m n cl num where v:
    "r ''COMPONENT'' = Some c" "r ''PROPERTY'' = Some p" "r ''TIME_ASPCT'' = Some t"
    "r ''SYSTEM'' = Some s" "r ''SCALE_TYP'' = Some sc" "r ''METHOD_TYP'' = Some m"
    "r ''LONG_COMMON_NAME'' = Some n" "r ''CLASS'' = Some cl" "r ''LOINC_NUM'' = Some num"
    by auto
  then obtain rv where rv: "resolve_row pl r = Inr rv"
    by (simp add: resolve_row_def resolve_def bind_exn_def getitem_def)
  from v obtain tx where tx: "text_to_embed r rv = Inr tx"
    by (simp add: text_to_embed_def bind_exn_def getitem_def)
  from v obtain pay where pay: "make_payload r rv = Inr pay"
    by (simp add: make_payload_def bind_exn_def getitem_def)
  from answers obtain resp vec where
    "ollama_embed env (length (embed_log w)) OLLAMA_MODEL tx = Inr resp"
    "resp ''embedding'' = Some vec"
    by blast
  with rv tx pay show ?thesis
    by (simp add: build_point_def get_embedding_def Let_def)
qed

lemma upsert_total:
  assumes "upsert_raises env (length (upsert_log w)) = None" and "qdrant w name \<noteq> None"
  shows "\<exists>w1. upsert env name wt ps w = (Inr (), w1) \<and> qdrant w1 name \<noteq> None"
  using assms by (auto simp: upsert_def Let_def)

lemma loop_total:
  assumes cols: "\<forall>r\<in>set rs. \<forall>f\<in>{''COMPONENT'', ''PROPERTY'', ''TIME_ASPCT'', ''SYSTEM'',
      ''SCALE_TYP'', ''METHOD_TYP'', ''LONG_COMMON_NAME'', ''CLASS'', ''LOINC_NUM''}. r f \<noteq> None"
    and answers: "\<forall>k tx. \<exists>resp v. ollama_embed env k OLLAMA_MODEL tx = Inr resp
                    \<and> resp ''embedding'' = Some v"
    and acks: "\<forall>k. upsert_raises env k = None"
    and coll: "qdrant w COLLECTION_NAME \<noteq> None"
  shows "\<exists>rest w'. loop env pl i rs pts w = (Inr rest, w') \<and> qdrant w' COLLECTION_NAME \<noteq> None"
  using cols coll
proof (induction rs arbitrary: i pts w)
  case Nil
  then show ?case by simp
next
  case (Cons r rs)
  from Cons.prems(1) have c1: "\<forall>f\<in>{''COMPONENT'', ''PROPERTY'', ''TIME_ASPCT'', ''SYSTEM'',
      ''SCALE_TYP'', ''METHOD_TYP'', ''LONG_COMMON_NAME'', ''CLASS'', ''LOINC_NUM''}. r f \<noteq> None"
    and crs: "\<forall>r\<in>set rs. \<forall>f\<in>{''COMPONENT'', ''PROPERTY'', ''TIME_ASPCT'', ''SYSTEM'',
      ''SCALE_TYP'', ''METHOD_TYP'', ''LONG_COMMON_NAME'', ''CLASS'', ''LOINC_NUM''}. r f \<noteq> None"
    by simp_all
  from build_point_total [OF c1 answers] obtain p w1 where
    bp: "build_point env pl i r w = (Inr p, w1)" by blast
  from build_point_frame [OF bp] Cons.prems(2) have q1: "qdrant w1 COLLECTION_NAME \<noteq> None"
    by simp
  show ?case
  proof (cases "length (pts @ [p]) = 100")
    case True
    from acks have "upsert_raises env (length (upsert_log w1)) = None" by blast
    from upsert_total [OF this q1] obtain w2 where
      up: "upsert env COLLECTION_NAME True (pts @ [p]) w1 = (Inr (), w2)"
      and q2: "qdrant w2 COLLECTION_NAME \<noteq> None"
      by blast
    from q2 have "qdrant (print Upserted100 w2) COLLECTION_NAME \<noteq> None" by simp
    from Cons.IH [OF crs this, of "i + 1" "[]"] bp True up show ?thesis by simp
  next
    case False
    from Cons.IH [OF crs q1, of "i + 1" "pts @ [p]"] bp False show ?thesis by simp
  qed
qed

lemma main_completes:
  assumes "\<forall>r\<in>set part_rows. r ''PartNumber'' \<noteq> None \<and> r ''PartName'' \<noteq> None"
    and "\<forall>r\<in>set loinc_rows. \<forall>f\<in>{''COMPONENT'', ''PROPERTY'', ''TIME_ASPCT'', ''SYSTEM'',
      ''SCALE_TYP'', ''METHOD_TYP'', ''LONG_COMMON_NAME'', ''CLASS'', ''LOINC_NUM''}. r f \<noteq> None"
    and "\<forall>k tx. \<exists>resp v. ollama_embed env k OLLAMA_MODEL tx = Inr resp
                    \<and> resp ''embedding'' = Some v"
    and "recreate_raises env = None"
    and "\<forall>k. upsert_raises env k = None"
  shows "\<exists>w'. main env part_rows loinc_rows store = (Inr (), w')"
proof -
  from part_loop_spec [OF assms(1), of Map.empty] obtain pl where
    pl: "create_part_lookup part_rows = Inr pl"
    unfolding create_part_lookup_def by blast
  let ?w1 = "print (Created COLLECTION_NAME)
      \<lparr>qdrant = store(COLLECTION_NAME \<mapsto>
                 \<lparr>config = \<lparr>size_p = 768, distance = COSINE\<rparr>, points = []\<rparr>),
       embed_log = [], upsert_log = [], stdout = []\<rparr>"
  have "qdrant ?w1 COLLECTION_NAME \<noteq> None" by simp
  from loop_total [OF assms(2,3,5) this, of pl 0 "[]"] obtain rest w2 where
    lp: "loop env pl 0 loinc_rows [] ?w1 = (Inr rest, w2)"
    and q2: "qdrant w2 COLLECTION_NAME \<noteq> None"
    by blast
  from assms(5) have "upsert_raises env (length (upsert_log w2)) = None" by blast
  from upsert_total [OF this q2] obtain w3 where
    "upsert env COLLECTION_NAME True rest w2 = (Inr (), w3)" by blast
  with pl lp assms(4) show ?thesis
    by (simp add: main_def recreate_collection_def)
qed

lemma sample_run250:
  "\<exists>w'. main sample_services sample_part_rows (replicate 250 sample_row) Map.empty = (Inr (), w')"
proof (rule main_completes)
  show "\<forall>r\<in>set sample_part_rows. r ''PartNumber'' \<noteq> None \<and> r ''PartName'' \<noteq> None"
    by (simp add: sample_part_rows_def)
  show "\<forall>r\<in>set (replicate 250 sample_row). \<forall>f\<in>{''COMPONENT'', ''PROPERTY'', ''TIME_ASPCT'',
      ''SYSTEM'', ''SCALE_TYP'', ''METHOD_TYP'', ''LONG_COMMON_NAME'', ''CLASS'', ''LOINC_NUM''}.
      r f \<noteq> None"
    by (simp add: sample_row_def)
  show "\<forall>k tx. \<exists>resp v. ollama_embed sample_services k OLLAMA_MODEL tx = Inr resp
                    \<and> resp ''embedding'' = Some v"
    by (simp add: sample_services_def)
  show "recreate_raises sample_services = None" by (simp add: sample_services_def)
  show "\<forall>k. upsert_raises sample_services k = None" by (simp add: sample_services_def)
qed

section \<open>Resolving a row and making its point\<close>

lemmas body_defs =
  build_point_def resolve_row_def resolve_def bind_exn_def getitem_def dict_get_def
  text_to_embed_def make_payload_def get_embedding_def Let_def

text \<open>
  Claim C3, as amended: for a row that has the columns, resolving never raises, and for
  each of PROPERTY, TIME\_ASPCT, SYSTEM, SCALE\_TYP and METHOD\_TYP a code with no
  entry in the lookup is passed through: the resolved value is the raw code itself. (It is
  therefore empty when the raw code is empty, see the counterexample below.)
\<close>

theorem unknown_code_passes_through:
  assumes "\<forall>f\<in>{''COMPONENT'', ''PROPERTY'', ''TIME_ASPCT'', ''SYSTEM'', ''SCALE_TYP'',
                  ''METHOD_TYP''}. r f \<noteq> None"
  shows "\<exists>v. resolve_row part_lookup r = Inr v
    \<and> (\<forall>code. r ''PROPERTY'' = Some code \<and> part_lookup code = None \<longrightarrow> prop_p v = code)
    \<and> (\<forall>code. r ''TIME_ASPCT'' = Some code \<and> part_lookup code = None \<longrightarrow> time_aspct v = code)
    \<and> (\<forall>code. r ''SYSTEM'' = Some code \<and> part_lookup code = None \<longrightarrow> system v = code)
    \<and> (\<forall>code. r ''SCALE_TYP'' = Some code \<and> part_lookup code = None \<longrightarrow> scale_typ v = code)
    \<and> (\<forall>code. r ''METHOD_TYP'' = Some code \<and> part_lookup code = None \<longrightarrow> method_typ v = code)"
proof -
  from assms obtain c p t s sc m where
    "r ''COMPONENT'' = Some c" "r ''PROPERTY'' = Some p" "r ''TIME_ASPCT'' = Some t"
    "r ''SYSTEM'' = Some s" "r ''SCALE_TYP'' = Some sc" "r ''METHOD_TYP'' = Some m"
    by auto
  then show ?thesis
    by (simp add: resolve_row_def resolve_def bind_exn_def getitem_def dict_get_def)
qed

theorem unknown_code_passes_through_witness:
  "\<exists>v. resolve_row sample_lookup sample_row = Inr v
     \<and> prop_p v = Str ''MCnc'' \<and> system v = Str ''Ser/Plas'' \<and> scale_typ v = Str ''Qn''"
proof -
  have cols: "\<forall>f\<in>{''COMPONENT'', ''PROPERTY'', ''TIME_ASPCT'', ''SYSTEM'', ''SCALE_TYP'',
                  ''METHOD_TYP''}. sample_row f \<noteq> None"
    by (simp add: sample_row_def)
  have "sample_row ''PROPERTY'' = Some (Str ''MCnc'') \<and> sample_lookup (Str ''MCnc'') = None"
    "sample_row ''SYSTEM'' = Some (Str ''Ser/Plas'') \<and> sample_lookup (Str ''Ser/Plas'') = None"
    "sample_row ''SCALE_TYP'' = Some (Str ''Qn'') \<and> sample_lookup (Str ''Qn'') = None"
    by (simp_all add: sample_row_def sample_lookup_def)
  with unknown_code_passes_through [OF cols, of sample_lookup] show ?thesis
    by blast
qed

text \<open>
  Claim C3 as stated says the resolved value is never empty. A row whose METHOD\_TYP is the
  empty string, with no lookup entry for it, resolves to the empty string.
\<close>

theorem resolved_value_empty_counterexample:
  "sample_row ''METHOD_TYP'' = Some (Str []) \<and> sample_lookup (Str []) = None
   \<and> resolve sample_lookup sample_row ''METHOD_TYP'' = Inr (Str [])
   \<and> fmt (Str []) = []"
  by (simp add: sample_row_def sample_lookup_def resolve_def bind_exn_def getitem_def
      dict_get_def)

text \<open>
  Claim C10: COMPONENT is never resolved through the lookup. Whenever the loop body makes a
  point of a row, the text sent to the embedding service and the payload carry the raw
  COMPONENT value, the raw LONG\_COMMON\_NAME (and CLASS, LOINC\_NUM), and the values of
  PROPERTY, TIME\_ASPCT, SYSTEM, SCALE\_TYP and METHOD\_TYP after
  \<^verbatim>\<open>part_lookup.get(code, code)\<close>, and only these five go through the lookup.
\<close>

theorem component_is_copied_verbatim:
  assumes "build_point env part_lookup i r w = (Inr p, w1)"
  shows "\<exists>n num cls c p0 t0 s0 sc0 m0.
      r ''LONG_COMMON_NAME'' = Some n \<and> r ''LOINC_NUM'' = Some num \<and> r ''CLASS'' = Some cls
    \<and> r ''COMPONENT'' = Some c \<and> r ''PROPERTY'' = Some p0 \<and> r ''TIME_ASPCT'' = Some t0
    \<and> r ''SYSTEM'' = Some s0 \<and> r ''SCALE_TYP'' = Some sc0 \<and> r ''METHOD_TYP'' = Some m0
    \<and> embed_log w1 = embed_log w @
         [(OLLAMA_MODEL,
           ''This LOINC term is for '' @ [CHR 0x27] @ fmt n @ [CHR 0x27]
           @ ''. Component: '' @ fmt c
           @ ''. Property: '' @ fmt (dict_get part_lookup p0 p0)
           @ ''. Time Aspect: '' @ fmt (dict_get part_lookup t0 t0)
           @ ''. System: '' @ fmt (dict_get part_lookup s0 s0)
           @ ''. Scale: '' @ fmt (dict_get part_lookup sc0 sc0)
           @ ''. Method: '' @ fmt (dict_get part_lookup m0 m0)
           @ ''. Class: '' @ fmt cls @ ''.'')]
    \<and> payload p =
         [''Fully-Specified Name'' \<mapsto> n,
          ''LOINC code'' \<mapsto> num,
          ''Component'' \<mapsto> c,
          ''Property'' \<mapsto> dict_get part_lookup p0 p0,
          ''Time'' \<mapsto> dict_get part_lookup t0 t0,
          ''System'' \<mapsto> dict_get part_lookup s0 s0,
          ''Scale'' \<mapsto> dict_get part_lookup sc0 sc0,
          ''Method'' \<mapsto> dict_get part_lookup m0 m0]"
proof -
  from build_point_Inr(2) [OF assms] obtain v tx where
    v: "resolve_row part_lookup r = Inr v" and t: "text_to_embed r v = Inr tx"
    and pl: "make_payload r v = Inr (payload p)"
    and el: "embed_log w1 = embed_log w @ [(OLLAMA_MODEL, tx)]"
    by blast
  from v obtain c p0 t0 s0 sc0 m0 where cols:
    "r ''COMPONENT'' = Some c" "r ''PROPERTY'' = Some p0" "r ''TIME_ASPCT'' = Some t0"
    "r ''SYSTEM'' = Some s0" "r ''SCALE_TYP'' = Some sc0" "r ''METHOD_TYP'' = Some m0"
    by (auto simp: resolve_row_def resolve_def bind_exn_def getitem_def
        split: option.splits)
  with v have vv: "v = \<lparr>component = c, prop_p = dict_get part_lookup p0 p0,
      time_aspct = dict_get part_lookup t0 t0, system = dict_get part_lookup s0 s0,
      scale_typ = dict_get part_lookup sc0 sc0, method_typ = dict_get part_lookup m0 m0\<rparr>"
    by (simp add: resolve_row_def resolve_def bind_exn_def getitem_def)
  from t obtain n cls where nc: "r ''LONG_COMMON_NAME'' = Some n" "r ''CLASS'' = Some cls"
    by (auto simp: text_to_embed_def bind_exn_def getitem_def split: option.splits)
  from pl obtain num where num: "r ''LOINC_NUM'' = Some num"
    by (auto simp: make_payload_def bind_exn_def getitem_def split: option.splits)
  from t nc vv have tx: "tx = ''This LOINC term is for '' @ [CHR 0x27] @ fmt n @ [CHR 0x27]
           @ ''. Component: '' @ fmt c
           @ ''. Property: '' @ fmt (dict_get part_lookup p0 p0)
           @ ''. Time Aspect: '' @ fmt (dict_get part_lookup t0 t0)
           @ ''. System: '' @ fmt (dict_get part_lookup s0 s0)
           @ ''. Scale: '' @ fmt (dict_get part_lookup sc0 sc0)
           @ ''. Method: '' @ fmt (dict_get part_lookup m0 m0)
           @ ''. Class: '' @ fmt cls @ ''.''"
    by (simp add: text_to_embed_def bind_exn_def getitem_def)
  from pl nc num vv have pay: "payload p =
         [''Fully-Specified Name'' \<mapsto> n,
          ''LOINC code'' \<mapsto> num,
          ''Component'' \<mapsto> c,
          ''Property'' \<mapsto> dict_get part_lookup p0 p0,
          ''Time'' \<mapsto> dict_get part_lookup t0 t0,
          ''System'' \<mapsto> dict_get part_lookup s0 s0,
          ''Scale'' \<mapsto> dict_get part_lookup sc0 sc0,
          ''Method'' \<mapsto> dict_get part_lookup m0 m0]"
    by (simp add: make_payload_def bind_exn_def getitem_def)
  from cols nc num el tx pay show ?thesis by blast
qed

theorem component_is_copied_verbatim_witness:
  "sample_lookup (Str ''LP6118-6'') = Some (Str ''Glucose (revised)'')
   \<and> (\<exists>p w1. build_point sample_services sample_lookup 0 sample_row sample_world = (Inr p, w1)
        \<and> payload p ''Component'' = Some (Str ''LP6118-6'')
        \<and> payload p ''Time'' = Some (Str ''Time'')
        \<and> embed_log w1 = [(OLLAMA_MODEL,
             ''This LOINC term is for '' @ [CHR 0x27]
             @ ''Glucose [Mass/volume] in Serum or Plasma'' @ [CHR 0x27]
             @ ''. Component: LP6118-6. Property: MCnc. Time Aspect: Time. System: Ser/Plas. Scale: Qn. Method: . Class: CHEM.'')])"
proof -
  have "\<exists>p w1. build_point sample_services sample_lookup 0 sample_row sample_world = (Inr p, w1)"
    by (simp add: body_defs sample_services_def sample_lookup_def sample_row_def
        sample_world_def)
  then obtain p w1 where
    bp: "build_point sample_services sample_lookup 0 sample_row sample_world = (Inr p, w1)"
    by blast
  from component_is_copied_verbatim [OF bp]
  have "payload p ''Component'' = Some (Str ''LP6118-6'')
        \<and> payload p ''Time'' = Some (Str ''Time'')
        \<and> embed_log w1 = [(OLLAMA_MODEL,
             ''This LOINC term is for '' @ [CHR 0x27]
             @ ''Glucose [Mass/volume] in Serum or Plasma'' @ [CHR 0x27]
             @ ''. Component: LP6118-6. Property: MCnc. Time Aspect: Time. System: Ser/Plas. Scale: Qn. Method: . Class: CHEM.'')]"
    by (auto simp: sample_row_def sample_lookup_def sample_world_def dict_get_def)
  moreover have "sample_lookup (Str ''LP6118-6'') = Some (Str ''Glucose (revised)'')"
    by (simp add: sample_lookup_def)
  ultimately show ?thesis using bp by blast
qed

section \<open>Batches, identifiers and the collection after a run\<close>

lemmas run_defs =
  main_def loop.simps upsert_def recreate_collection_def create_part_lookup_def print_def
  upsert_points_def body_defs

lemma committed_batches: "upsert_log w = map batch_call bs \<Longrightarrow> committed w = concat bs"
  by (simp add: committed_def batch_call_def comp_def)

text \<open>
  Claim C4: in a run that completes, every upsert call goes to the collection with
  \<^verbatim>\<open>wait=True\<close> and carries between 1 and 100 points; every call but the last
  carries exactly 100 (an upsert is issued when the open batch reaches 100, the last call
  is the non-empty remainder); and the upsert calls, read in order, carry the points of the
  rows in source order, identifiers 1 to n, each exactly once.
\<close>

theorem upserts_in_batches_of_100:
  assumes "main env part_rows loinc_rows store = (Inr u, w')"
    and "recreate_raises env = None"
  shows "(\<forall>c\<in>set (upsert_log w').
            collection_name c = COLLECTION_NAME \<and> wait c
          \<and> 0 < length (call_points c) \<and> length (call_points c) \<le> 100)
       \<and> (\<forall>c\<in>set (butlast (upsert_log w')). length (call_points c) = 100)
       \<and> map id_p (committed w') = map (\<lambda>j. int j + 1) [0..<length loinc_rows]
       \<and> distinct (map id_p (committed w'))"
proof -
  from main_Inr [OF assms] obtain pl bs where m:
    "upsert_log w' = map batch_call bs"
    "\<forall>b\<in>set bs. 0 < length b \<and> length b \<le> 100"
    "\<forall>b\<in>set (butlast bs). length b = 100"
    "length (concat bs) = length loinc_rows"
    "\<forall>j<length loinc_rows. point_of_row env pl j (loinc_rows ! j) (concat bs ! j)"
    by blast
  have c: "committed w' = concat bs" using m(1) by (rule committed_batches)
  have ids: "map id_p (committed w') = map (\<lambda>j. int j + 1) [0..<length loinc_rows]"
    unfolding c using m(4) m(5) by (rule ids_of_rows)
  have a: "\<forall>c\<in>set (upsert_log w').
            collection_name c = COLLECTION_NAME \<and> wait c
          \<and> 0 < length (call_points c) \<and> length (call_points c) \<le> 100"
    using m(2) by (auto simp: m(1) batch_call_def)
  have b: "\<forall>c\<in>set (butlast (upsert_log w')). length (call_points c) = 100"
    using m(3) by (auto simp: m(1) map_butlast [symmetric] batch_call_def)
  from a b ids distinct_row_ids [of "length loinc_rows"] show ?thesis by simp
qed


theorem upserts_in_batches_of_100_witness:
  "\<exists>w'. main sample_services sample_part_rows (replicate 250 sample_row) Map.empty = (Inr (), w')
     \<and> length (committed w') = 250
     \<and> (\<forall>c\<in>set (upsert_log w'). wait c \<and> 0 < length (call_points c)
            \<and> length (call_points c) \<le> 100)
     \<and> (\<forall>c\<in>set (butlast (upsert_log w')). length (call_points c) = 100)"
proof -
  from sample_run250 obtain w' where
    run: "main sample_services sample_part_rows (replicate 250 sample_row) Map.empty = (Inr (), w')"
    by blast
  have ok: "recreate_raises sample_services = None"
    by (simp add: sample_services_def)
  note t = upserts_in_batches_of_100 [OF run ok]
  from t have "map id_p (committed w')
      = map (\<lambda>j. int j + 1) [0..<length (replicate 250 sample_row)]"
    by blast
  then have "length (map id_p (committed w'))
      = length (map (\<lambda>j. int j + 1) [0..<length (replicate 250 sample_row)])"
    by (rule arg_cong)
  then have "length (committed w') = 250" by simp
  with t run show ?thesis by blast
qed






subsection \<open>No check of the dimensionality\<close>

lemma upsert_log_snoc:
  "upsert env name wt ps w = (y, w1) \<Longrightarrow>
     upsert_log w1 = upsert_log w @ [\<lparr>collection_name = name, wait = wt, call_points = ps\<rparr>]"
  by (auto simp: upsert_def Let_def split: option.splits)

lemma upsert_raised:
  "upsert env name wt ps w = (y, w1) \<Longrightarrow> upsert_raises env (length (upsert_log w)) = Some msg
     \<Longrightarrow> y = Inl (ClientError msg)"
  by (auto simp: upsert_def Let_def)

lemma loop_log_extends:
  "loop env pl i rs pts w = (res, w') \<Longrightarrow> \<exists>more. upsert_log w' = upsert_log w @ more"
proof (induction rs arbitrary: i pts w)
  case Nil
  then show ?case by simp
next
  case (Cons r rs)
  obtain x w1 where bp: "build_point env pl i r w = (x, w1)" by (cases "build_point env pl i r w")
  from build_point_frame [OF bp] have l1: "upsert_log w1 = upsert_log w" by simp
  show ?case
  proof (cases x)
    case (Inl e)
    with Cons.prems bp have "w' = w1" by auto
    with l1 show ?thesis by simp
  next
    case (Inr p)
    show ?thesis
    proof (cases "length (pts @ [p]) = 100")
      case True
      obtain y w2 where up: "upsert env COLLECTION_NAME True (pts @ [p]) w1 = (y, w2)"
        by (cases "upsert env COLLECTION_NAME True (pts @ [p]) w1")
      note l2 = upsert_log_snoc [OF up]
      show ?thesis
      proof (cases y)
        case (Inl e)
        with Cons.prems bp Inr True up have "w' = w2" by auto
        with l1 l2 show ?thesis by simp
      next
        case Inr2: (Inr u)
        with Cons.prems bp Inr True up
        have "loop env pl (i + 1) rs [] (print Upserted100 w2) = (res, w')" by simp
        from Cons.IH [OF this] l1 l2 show ?thesis by auto
      qed
    next
      case False
      with Cons.prems bp Inr
      have "loop env pl (i + 1) rs (pts @ [p]) w1 = (res, w')" by simp
      from Cons.IH [OF this] l1 show ?thesis by simp
    qed
  qed
qed

lemma loop_first_call:
  assumes cols: "\<forall>r\<in>set rs. \<forall>f\<in>{''COMPONENT'', ''PROPERTY'', ''TIME_ASPCT'', ''SYSTEM'',
      ''SCALE_TYP'', ''METHOD_TYP'', ''LONG_COMMON_NAME'', ''CLASS'', ''LOINC_NUM''}. r f \<noteq> None"
    and answers: "\<forall>k tx. \<exists>resp v. ollama_embed env k OLLAMA_MODEL tx = Inr resp
                    \<and> resp ''embedding'' = Some v"
    and "length pts < 100" and "length (embed_log w) = i"
    and "loop env pl i rs pts w = (res, w')"
  shows "\<exists>new. length new = min (length rs) (100 - length pts)
    \<and> (\<forall>j<length new. point_of_row env pl (i + j) (rs ! j) (new ! j))
    \<and> (if length pts + length rs < 100
        then res = Inr (pts @ new) \<and> upsert_log w' = upsert_log w
        else \<exists>more. upsert_log w' = upsert_log w @ batch_call (pts @ new) # more
               \<and> (\<forall>msg. upsert_raises env (length (upsert_log w)) = Some msg
                      \<longrightarrow> res = Inl (ClientError msg) \<and> more = []))"
  using cols assms(3-5)
proof (induction rs arbitrary: i pts w)
  case Nil
  then show ?case by simp
next
  case (Cons r rs)
  from Cons.prems(1) have c1: "\<forall>f\<in>{''COMPONENT'', ''PROPERTY'', ''TIME_ASPCT'', ''SYSTEM'',
      ''SCALE_TYP'', ''METHOD_TYP'', ''LONG_COMMON_NAME'', ''CLASS'', ''LOINC_NUM''}. r f \<noteq> None"
    and crs: "\<forall>r\<in>set rs. \<forall>f\<in>{''COMPONENT'', ''PROPERTY'', ''TIME_ASPCT'', ''SYSTEM'',
      ''SCALE_TYP'', ''METHOD_TYP'', ''LONG_COMMON_NAME'', ''CLASS'', ''LOINC_NUM''}. r f \<noteq> None"
    by simp_all
  from build_point_total [OF c1 answers] obtain p w1 where
    bp: "build_point env pl i r w = (Inr p, w1)" by blast
  from build_point_of_row [OF bp Cons.prems(3)]
  have por: "point_of_row env pl i r p" and el1: "length (embed_log w1) = i + 1" by simp_all
  from build_point_frame [OF bp] have l1: "upsert_log w1 = upsert_log w" by simp
  show ?case
  proof (cases "length (pts @ [p]) = 100")
    case True
    then have lp: "length pts = 99" by simp
    obtain y w2 where up: "upsert env COLLECTION_NAME True (pts @ [p]) w1 = (y, w2)"
      by (cases "upsert env COLLECTION_NAME True (pts @ [p]) w1")
    from upsert_log_snoc [OF up] l1
    have l2: "upsert_log w2 = upsert_log w @ [batch_call (pts @ [p])]"
      by (simp add: batch_call_def)
    have "\<exists>more. upsert_log w' = upsert_log w @ batch_call (pts @ [p]) # more
               \<and> (\<forall>msg. upsert_raises env (length (upsert_log w)) = Some msg
                      \<longrightarrow> res = Inl (ClientError msg) \<and> more = [])"
    proof (cases y)
      case (Inl e)
      with Cons.prems(4) bp True up have rw: "res = Inl e \<and> w' = w2" by auto
      have "\<forall>msg. upsert_raises env (length (upsert_log w)) = Some msg
                      \<longrightarrow> res = Inl (ClientError msg)"
        using upsert_raised [OF up] l1 Inl rw by auto
      with rw l2 show ?thesis by simp
    next
      case Inr2: (Inr u)
      with Cons.prems(4) bp True up
      have "loop env pl (i + 1) rs [] (print Upserted100 w2) = (res, w')" by simp
      from loop_log_extends [OF this] obtain more where
        "upsert_log w' = upsert_log w2 @ more" by auto
      moreover have "upsert_raises env (length (upsert_log w)) = None"
      proof (cases "upsert_raises env (length (upsert_log w))")
        case None
        then show ?thesis .
      next
        case (Some msg)
        with l1 have "upsert_raises env (length (upsert_log w1)) = Some msg" by simp
        from upsert_raised [OF up this] Inr2 show ?thesis by simp
      qed
      ultimately show ?thesis using l2 by simp
    qed
    with por lp show ?thesis
      by (intro exI [of _ "[p]"]) simp
  next
    case False
    with Cons.prems(2) have lt: "length (pts @ [p]) < 100" by simp
    from Cons.prems(4) bp False
    have lp: "loop env pl (i + 1) rs (pts @ [p]) w1 = (res, w')" by simp
    from Cons.IH [OF crs lt _ lp] el1 obtain new where n:
      "length new = min (length rs) (100 - length (pts @ [p]))"
      "\<forall>j<length new. point_of_row env pl (i + 1 + j) (rs ! j) (new ! j)"
      "if length (pts @ [p]) + length rs < 100
        then res = Inr ((pts @ [p]) @ new) \<and> upsert_log w' = upsert_log w1
        else \<exists>more. upsert_log w' = upsert_log w1 @ batch_call ((pts @ [p]) @ new) # more
               \<and> (\<forall>msg. upsert_raises env (length (upsert_log w1)) = Some msg
                      \<longrightarrow> res = Inl (ClientError msg) \<and> more = [])"
      by auto
    have len: "length (p # new) = min (length (r # rs)) (100 - length pts)"
      using n(1) lt by simp
    have idx: "\<forall>j<length (p # new). point_of_row env pl (i + j) ((r # rs) ! j) ((p # new) ! j)"
    proof (intro allI impI)
      fix j assume "j < length (p # new)"
      then show "point_of_row env pl (i + j) ((r # rs) ! j) ((p # new) ! j)"
        using por n(2) by (cases j) auto
    qed
    have rest: "if length pts + length (r # rs) < 100
        then res = Inr (pts @ p # new) \<and> upsert_log w' = upsert_log w
        else \<exists>more. upsert_log w' = upsert_log w @ batch_call (pts @ p # new) # more
               \<and> (\<forall>msg. upsert_raises env (length (upsert_log w)) = Some msg
                      \<longrightarrow> res = Inl (ClientError msg) \<and> more = [])"
    proof (cases "length pts + length (r # rs) < 100")
      case True
      with n(3) l1 show ?thesis by simp
    next
      case False
      with n(3) obtain more where
        "upsert_log w' = upsert_log w1 @ batch_call ((pts @ [p]) @ new) # more"
        "\<forall>msg. upsert_raises env (length (upsert_log w1)) = Some msg
                      \<longrightarrow> res = Inl (ClientError msg) \<and> more = []"
        by auto
      with l1 have "upsert_log w' = upsert_log w @ batch_call (pts @ p # new) # more
               \<and> (\<forall>msg. upsert_raises env (length (upsert_log w)) = Some msg
                      \<longrightarrow> res = Inl (ClientError msg) \<and> more = [])"
        by simp
      then have "\<exists>more. upsert_log w' = upsert_log w @ batch_call (pts @ p # new) # more
               \<and> (\<forall>msg. upsert_raises env (length (upsert_log w)) = Some msg
                      \<longrightarrow> res = Inl (ClientError msg) \<and> more = [])"
        by (rule exI)
      with False show ?thesis by simp
    qed
    from len idx rest show ?thesis by blast
  qed
qed

lemma main_first_call:
  assumes pcols: "\<forall>r\<in>set part_rows. r ''PartNumber'' \<noteq> None \<and> r ''PartName'' \<noteq> None"
    and cols: "\<forall>r\<in>set loinc_rows. \<forall>f\<in>{''COMPONENT'', ''PROPERTY'', ''TIME_ASPCT'', ''SYSTEM'',
      ''SCALE_TYP'', ''METHOD_TYP'', ''LONG_COMMON_NAME'', ''CLASS'', ''LOINC_NUM''}. r f \<noteq> None"
    and answers: "\<forall>k tx. \<exists>resp v. ollama_embed env k OLLAMA_MODEL tx = Inr resp
                    \<and> resp ''embedding'' = Some v"
    and rec: "recreate_raises env = None"
    and ne: "loinc_rows \<noteq> []"
    and run: "main env part_rows loinc_rows store = (res, w')"
  shows "\<exists>pl new more. create_part_lookup part_rows = Inr pl
    \<and> upsert_log w' = batch_call new # more
    \<and> length new = min (length loinc_rows) 100
    \<and> (\<forall>j<length new. point_of_row env pl j (loinc_rows ! j) (new ! j))
    \<and> (\<forall>msg. upsert_raises env 0 = Some msg \<longrightarrow> res = Inl (ClientError msg) \<and> more = [])"
proof -
  from part_loop_spec [OF pcols, of Map.empty] obtain pl where
    pl: "create_part_lookup part_rows = Inr pl"
    unfolding create_part_lookup_def by blast
  let ?w1 = "print (Created COLLECTION_NAME)
      \<lparr>qdrant = store(COLLECTION_NAME \<mapsto>
                 \<lparr>config = \<lparr>size_p = 768, distance = COSINE\<rparr>, points = []\<rparr>),
       embed_log = [], upsert_log = [], stdout = []\<rparr>"
  obtain x w2 where lp: "loop env pl 0 loinc_rows [] ?w1 = (x, w2)"
    by (cases "loop env pl 0 loinc_rows [] ?w1")
  have m: "main env part_rows loinc_rows store =
        (case x of Inl e \<Rightarrow> (Inl e, w2)
         | Inr pts \<Rightarrow> if pts \<noteq> [] then
             (case upsert env COLLECTION_NAME True pts w2 of
                (Inl e, w3) \<Rightarrow> (Inl e, w3)
              | (Inr u, w3) \<Rightarrow> (Inr (), print (UpsertedRemaining (length pts)) w3))
           else (Inr (), w2))"
    using pl rec lp by (simp add: main_def recreate_collection_def)
  have "\<exists>new. length new = min (length loinc_rows) (100 - length ([] :: 'a PointStruct list))
    \<and> (\<forall>j<length new. point_of_row env pl (0 + j) (loinc_rows ! j) (new ! j))
    \<and> (if length ([] :: 'a PointStruct list) + length loinc_rows < 100
        then x = Inr ([] @ new) \<and> upsert_log w2 = upsert_log ?w1
        else \<exists>more. upsert_log w2 = upsert_log ?w1 @ batch_call ([] @ new) # more
               \<and> (\<forall>msg. upsert_raises env (length (upsert_log ?w1)) = Some msg
                      \<longrightarrow> x = Inl (ClientError msg) \<and> more = []))"
    by (rule loop_first_call [OF cols answers _ _ lp]) simp_all
  then obtain new where n0: "length new = min (length loinc_rows) (100 - length ([] :: 'a PointStruct list))"
    "\<forall>j<length new. point_of_row env pl (0 + j) (loinc_rows ! j) (new ! j)"
    and c0: "if length ([] :: 'a PointStruct list) + length loinc_rows < 100
        then x = Inr ([] @ new) \<and> upsert_log w2 = upsert_log ?w1
        else \<exists>more. upsert_log w2 = upsert_log ?w1 @ batch_call ([] @ new) # more
               \<and> (\<forall>msg. upsert_raises env (length (upsert_log ?w1)) = Some msg
                      \<longrightarrow> x = Inl (ClientError msg) \<and> more = [])"
    by (elim exE conjE)
  from n0 have n: "length new = min (length loinc_rows) 100"
    "\<forall>j<length new. point_of_row env pl j (loinc_rows ! j) (new ! j)"
    by simp_all
  from c0 have c: "if length loinc_rows < 100
        then x = Inr new \<and> upsert_log w2 = []
        else \<exists>more. upsert_log w2 = batch_call new # more
               \<and> (\<forall>msg. upsert_raises env 0 = Some msg
                      \<longrightarrow> x = Inl (ClientError msg) \<and> more = [])"
    by (simp cong: if_cong)
  have "\<exists>more. upsert_log w' = batch_call new # more
    \<and> (\<forall>msg. upsert_raises env 0 = Some msg \<longrightarrow> res = Inl (ClientError msg) \<and> more = [])"
  proof (cases "length loinc_rows < 100")
    case True
    with c have x: "x = Inr new" and l2: "upsert_log w2 = []" by simp_all
    from n(1) ne True have nn: "new \<noteq> []" by auto
    obtain y w3 where up: "upsert env COLLECTION_NAME True new w2 = (y, w3)"
      by (cases "upsert env COLLECTION_NAME True new w2")
    from upsert_log_snoc [OF up] l2 have l3: "upsert_log w3 = [batch_call new]"
      by (simp add: batch_call_def)
    show ?thesis
    proof (cases y)
      case (Inl e)
      with run m x nn up have rw: "res = Inl e \<and> w' = w3" by auto
      have "\<forall>msg. upsert_raises env 0 = Some msg \<longrightarrow> res = Inl (ClientError msg)"
        using upsert_raised [OF up] l2 Inl rw by auto
      with rw l3 show ?thesis by simp
    next
      case (Inr u)
      with run m x nn up have rw: "res = Inr () \<and> w' = print (UpsertedRemaining (length new)) w3"
        by auto
      have "upsert_raises env 0 = None"
      proof (cases "upsert_raises env 0")
        case None
        then show ?thesis .
      next
        case (Some msg)
        with l2 have "upsert_raises env (length (upsert_log w2)) = Some msg" by simp
        from upsert_raised [OF up this] Inr show ?thesis by simp
      qed
      with rw l3 show ?thesis by simp
    qed
  next
    case False
    with c obtain more where l2: "upsert_log w2 = batch_call new # more"
      and r: "\<forall>msg. upsert_raises env 0 = Some msg \<longrightarrow> x = Inl (ClientError msg) \<and> more = []"
      by auto
    show ?thesis
    proof (cases x)
      case (Inl e)
      with run m have "res = Inl e \<and> w' = w2" by auto
      with l2 r Inl show ?thesis by auto
    next
      case (Inr pts)
      with r have none: "\<forall>msg. upsert_raises env 0 \<noteq> Some msg" by auto
      show ?thesis
      proof (cases "pts = []")
        case True
        with run m Inr have "w' = w2" by auto
        with l2 none show ?thesis by auto
      next
        case False
        obtain y w3 where up: "upsert env COLLECTION_NAME True pts w2 = (y, w3)"
          by (cases "upsert env COLLECTION_NAME True pts w2")
        from run m Inr False up
        have "w' = w3 \<or> w' = print (UpsertedRemaining (length pts)) w3"
          by (cases y) auto
        with upsert_log_snoc [OF up] l2 none show ?thesis by auto
      qed
    qed
  qed
  with pl n show ?thesis by blast
qed

text \<open>
  Claim C6, as amended: no check of the dimensionality is made. \<^verbatim>\<open>get_embedding\<close>
  returns the vector of the response as it is, whatever its length. When the rows have their
  columns, every embedding call is answered and the collection was recreated, a run over a
  non-empty table issues its first upsert call to the collection with the points of the
  first records, 100 of them or all if there are fewer, each carrying exactly the vector the
  service returned for its text, whatever the lengths. If the store raises on that call,
  its exception is the outcome of the run and no further call is made.
\<close>

theorem vectors_are_sent_unchecked:
  assumes "\<forall>r\<in>set part_rows. r ''PartNumber'' \<noteq> None \<and> r ''PartName'' \<noteq> None"
    and "\<forall>r\<in>set loinc_rows. \<forall>f\<in>{''COMPONENT'', ''PROPERTY'', ''TIME_ASPCT'', ''SYSTEM'',
      ''SCALE_TYP'', ''METHOD_TYP'', ''LONG_COMMON_NAME'', ''CLASS'', ''LOINC_NUM''}. r f \<noteq> None"
    and "\<forall>k tx. \<exists>resp v. ollama_embed env k OLLAMA_MODEL tx = Inr resp
                    \<and> resp ''embedding'' = Some v"
    and "recreate_raises env = None"
    and "loinc_rows \<noteq> []"
    and "main env part_rows loinc_rows store = (res, w')"
  shows "(\<forall>tx (w :: 'a world) resp v.
            ollama_embed env (length (embed_log w)) OLLAMA_MODEL tx = Inr resp
            \<and> resp ''embedding'' = Some v
            \<longrightarrow> get_embedding env tx w
                  = (Inr v, w\<lparr>embed_log := embed_log w @ [(OLLAMA_MODEL, tx)]\<rparr>))
       \<and> upsert_log w' \<noteq> []
       \<and> collection_name (hd (upsert_log w')) = COLLECTION_NAME
       \<and> length (call_points (hd (upsert_log w'))) = min (length loinc_rows) 100
       \<and> (\<exists>pl. create_part_lookup part_rows = Inr pl
            \<and> (\<forall>j<min (length loinc_rows) 100. \<exists>v tx resp.
                  resolve_row pl (loinc_rows ! j) = Inr v
                \<and> text_to_embed (loinc_rows ! j) v = Inr tx
                \<and> ollama_embed env j OLLAMA_MODEL tx = Inr resp
                \<and> resp ''embedding'' = Some (vector (call_points (hd (upsert_log w')) ! j))))
       \<and> (\<forall>msg. upsert_raises env 0 = Some msg
            \<longrightarrow> res = Inl (ClientError msg) \<and> length (upsert_log w') = 1)"
proof -
  have g: "\<forall>tx (w :: 'a world) resp v.
            ollama_embed env (length (embed_log w)) OLLAMA_MODEL tx = Inr resp
            \<and> resp ''embedding'' = Some v
            \<longrightarrow> get_embedding env tx w
                  = (Inr v, w\<lparr>embed_log := embed_log w @ [(OLLAMA_MODEL, tx)]\<rparr>)"
    by (simp add: get_embedding_def Let_def)
  from main_first_call [OF assms] obtain pl new more where m:
    "create_part_lookup part_rows = Inr pl"
    "upsert_log w' = batch_call new # more"
    "length new = min (length loinc_rows) 100"
    "\<forall>j<length new. point_of_row env pl j (loinc_rows ! j) (new ! j)"
    "\<forall>msg. upsert_raises env 0 = Some msg \<longrightarrow> res = Inl (ClientError msg) \<and> more = []"
    by blast
  have h: "call_points (hd (upsert_log w')) = new"
    "collection_name (hd (upsert_log w')) = COLLECTION_NAME" "upsert_log w' \<noteq> []"
    using m(2) by (simp_all add: batch_call_def)
  have v: "\<forall>j<min (length loinc_rows) 100. \<exists>v tx resp.
                  resolve_row pl (loinc_rows ! j) = Inr v
                \<and> text_to_embed (loinc_rows ! j) v = Inr tx
                \<and> ollama_embed env j OLLAMA_MODEL tx = Inr resp
                \<and> resp ''embedding'' = Some (vector (call_points (hd (upsert_log w')) ! j))"
  proof (intro allI impI)
    fix j assume "j < min (length loinc_rows) 100"
    with m(3) m(4) have "point_of_row env pl j (loinc_rows ! j) (new ! j)" by simp
    then show "\<exists>v tx resp.
                  resolve_row pl (loinc_rows ! j) = Inr v
                \<and> text_to_embed (loinc_rows ! j) v = Inr tx
                \<and> ollama_embed env j OLLAMA_MODEL tx = Inr resp
                \<and> resp ''embedding'' = Some (vector (call_points (hd (upsert_log w')) ! j))"
      unfolding point_of_row_def h(1) by blast
  qed
  have r: "\<forall>msg. upsert_raises env 0 = Some msg
            \<longrightarrow> res = Inl (ClientError msg) \<and> length (upsert_log w') = 1"
    using m(2) m(5) by auto
  from m(1) v have e: "\<exists>pl. create_part_lookup part_rows = Inr pl
            \<and> (\<forall>j<min (length loinc_rows) 100. \<exists>v tx resp.
                  resolve_row pl (loinc_rows ! j) = Inr v
                \<and> text_to_embed (loinc_rows ! j) v = Inr tx
                \<and> ollama_embed env j OLLAMA_MODEL tx = Inr resp
                \<and> resp ''embedding'' = Some (vector (call_points (hd (upsert_log w')) ! j)))"
    by (intro exI [of _ pl] conjI)
  from g h(3) h(2) h(1) m(3) e r show ?thesis by (intro conjI) simp_all
qed

theorem vectors_are_sent_unchecked_witness:
  "fst (main strict_services sample_part_rows [sample_row, sample_row] Map.empty)
     = Inl (ClientError ''Vector dimension error: expected dim: 768, got 2'')
   \<and> length (call_points (hd (upsert_log (snd (main strict_services sample_part_rows
        [sample_row, sample_row] Map.empty))))) = 2
   \<and> vector (call_points (hd (upsert_log (snd (main strict_services sample_part_rows
        [sample_row, sample_row] Map.empty)))) ! 1) = [1, 0]"
proof -
  obtain res w' where
    run: "main strict_services sample_part_rows [sample_row, sample_row] Map.empty = (res, w')"
    by (cases "main strict_services sample_part_rows [sample_row, sample_row] Map.empty")
  have a: "\<forall>r\<in>set sample_part_rows. r ''PartNumber'' \<noteq> None \<and> r ''PartName'' \<noteq> None"
    by (simp add: sample_part_rows_def)
  have b: "\<forall>r\<in>set [sample_row, sample_row]. \<forall>f\<in>{''COMPONENT'', ''PROPERTY'', ''TIME_ASPCT'',
      ''SYSTEM'', ''SCALE_TYP'', ''METHOD_TYP'', ''LONG_COMMON_NAME'', ''CLASS'', ''LOINC_NUM''}.
      r f \<noteq> None"
    by (simp add: sample_row_def)
  have c: "\<forall>k tx. \<exists>resp v. ollama_embed strict_services k OLLAMA_MODEL tx = Inr resp
                    \<and> resp ''embedding'' = Some v"
    by (simp add: strict_services_def)
  have d: "recreate_raises strict_services = None" by (simp add: strict_services_def)
  have e: "[sample_row, sample_row] \<noteq> []" by simp
  note t = vectors_are_sent_unchecked [OF a b c d e run]
  have raised: "upsert_raises strict_services 0
      = Some ''Vector dimension error: expected dim: 768, got 2''"
    by (simp add: strict_services_def)
  from t raised have r: "res = Inl (ClientError ''Vector dimension error: expected dim: 768, got 2'')"
    by blast
  from t have l: "length (call_points (hd (upsert_log w'))) = 2" by simp
  from t obtain pl where "\<forall>j<min (length [sample_row, sample_row]) 100. \<exists>v tx resp.
                  resolve_row pl ([sample_row, sample_row] ! j) = Inr v
                \<and> text_to_embed ([sample_row, sample_row] ! j) v = Inr tx
                \<and> ollama_embed strict_services j OLLAMA_MODEL tx = Inr resp
                \<and> resp ''embedding'' = Some (vector (call_points (hd (upsert_log w')) ! j))"
    by blast
  then have "1 < min (length [sample_row, sample_row]) 100 \<longrightarrow> (\<exists>v tx resp.
                  resolve_row pl ([sample_row, sample_row] ! 1) = Inr v
                \<and> text_to_embed ([sample_row, sample_row] ! 1) v = Inr tx
                \<and> ollama_embed strict_services 1 OLLAMA_MODEL tx = Inr resp
                \<and> resp ''embedding'' = Some (vector (call_points (hd (upsert_log w')) ! 1)))"
    by (rule spec)
  then have "\<exists>v tx resp.
                  resolve_row pl ([sample_row, sample_row] ! 1) = Inr v
                \<and> text_to_embed ([sample_row, sample_row] ! 1) v = Inr tx
                \<and> ollama_embed strict_services 1 OLLAMA_MODEL tx = Inr resp
                \<and> resp ''embedding'' = Some (vector (call_points (hd (upsert_log w')) ! 1))"
    by simp
  then have v: "vector (call_points (hd (upsert_log w')) ! 1) = [1, 0]"
    by (auto simp: strict_services_def)
  from run r l v show ?thesis by simp
qed

text \<open>
  Claim C6 as stated has the run abort on a vector whose length is not 768, before any
  commit is attempted. Here the service answers with vectors of length 2 and the store
  rejects them: \<^verbatim>\<open>get_embedding\<close> returns the vector, an upsert carrying it is
  issued, and the exception that ends the run is the one the store raised on that call.
\<close>

theorem dimension_mismatch_counterexample:
  "fst (get_embedding strict_services ''some text'' sample_world) = Inr [0, 0]
   \<and> length [0::int, 0] \<noteq> 768
   \<and> map (map vector \<circ> call_points)
       (upsert_log (snd (main strict_services sample_part_rows [sample_row] Map.empty)))
     = [[[0, 0]]]
   \<and> fst (main strict_services sample_part_rows [sample_row] Map.empty)
     = Inl (ClientError ''Vector dimension error: expected dim: 768, got 2'')"
  by (simp add: run_defs strict_services_def sample_part_rows_def sample_row_def
      sample_world_def COLLECTION_NAME_def)

section \<open>When the collection cannot be created\<close>

text \<open>
  Claim C8, as amended: when the call recreating the collection raises, \<^verbatim>\<open>main\<close>
  catches the exception, prints that the collection could not be created and returns: no
  record is embedded, no upsert is issued, and the process exits with code 0, as it does
  after a run that completes. The exit code is 1 only when an exception escapes
  \<^verbatim>\<open>main\<close>.
\<close>

theorem failed_creation_exits_zero:
  assumes "recreate_raises env = Some msg"
    and "create_part_lookup part_rows = Inr pl"
  shows "main env part_rows loinc_rows store =
           (Inr (), \<lparr>qdrant = store, embed_log = [], upsert_log = [],
                     stdout = [CouldNotCreate COLLECTION_NAME (ClientError msg)]\<rparr>)
       \<and> exit_code (main env part_rows loinc_rows store) = 0"
  using assms
  by (simp add: main_def recreate_collection_def print_def exit_code_def)

theorem failed_creation_exits_zero_witness:
  "main down_services sample_part_rows [sample_row] Map.empty =
     (Inr (), \<lparr>qdrant = Map.empty, embed_log = [], upsert_log = [],
               stdout = [CouldNotCreate COLLECTION_NAME (ClientError ''Connection refused'')]\<rparr>)
   \<and> exit_code (main down_services sample_part_rows [sample_row] Map.empty) = 0"
proof -
  have a: "recreate_raises down_services = Some ''Connection refused''"
    by (simp add: down_services_def)
  show ?thesis
    by (rule failed_creation_exits_zero [OF a sample_lookup_eq])
qed

text \<open>
  Claim C8 as stated gives a nonzero exit code when the collection cannot be created.
  With a store that refuses the call, the exit code is 0.
\<close>

theorem exit_code_counterexample:
  "recreate_raises down_services \<noteq> None
   \<and> exit_code (main down_services sample_part_rows [sample_row] Map.empty) = 0
   \<and> upsert_log (snd (main down_services sample_part_rows [sample_row] Map.empty)) = []"
  by (simp add: run_defs down_services_def sample_part_rows_def exit_code_def)

section \<open>What a run does to an existing collection\<close>

lemma upsert_point_subset: "set (upsert_point p qs) \<subseteq> insert p (set qs)"
  by (induction qs) auto

lemma upsert_points_subset: "set (upsert_points ps qs) \<subseteq> set ps \<union> set qs"
  unfolding upsert_points_def
proof (induction ps arbitrary: qs)
  case Nil
  then show ?case by simp
next
  case (Cons p ps)
  from Cons.IH [of "upsert_point p qs"] upsert_point_subset [of p qs]
  show ?case by auto
qed

lemma upsert_any:
  assumes "upsert env name wt ps w = (res, w1)" and "qdrant w name = Some c"
  shows "committed w1 = committed w @ ps"
    and "embed_log w1 = embed_log w"
    and "qdrant w1 = qdrant w \<or>
         qdrant w1 = (qdrant w)(name \<mapsto> c\<lparr>points := upsert_points ps (points c)\<rparr>)"
  using assms
  by (auto simp: upsert_def Let_def committed_def split: option.splits)

lemma only_new_points_print [simp]:
  "only_new_points store (print l w) = only_new_points store w"
  by (simp add: only_new_points_def committed_def)

lemma only_new_points_build:
  "build_point env pl i r w = (res, w1) \<Longrightarrow> only_new_points store w
     \<Longrightarrow> only_new_points store w1"
  using build_point_frame [of env pl i r w res w1]
  by (simp add: only_new_points_def committed_def)

lemma only_new_points_upsert:
  assumes "upsert env COLLECTION_NAME wt ps w = (res, w1)" and "only_new_points store w"
  shows "only_new_points store w1"
proof -
  from assms(2) obtain c where c: "qdrant w COLLECTION_NAME = Some c"
    "config c = \<lparr>size_p = 768, distance = COSINE\<rparr>" "set (points c) \<subseteq> set (committed w)"
    and others: "\<forall>name. name \<noteq> COLLECTION_NAME \<longrightarrow> qdrant w name = store name"
    unfolding only_new_points_def by blast
  note u = upsert_any [OF assms(1) c(1)]
  from u(3) show ?thesis
  proof
    assume "qdrant w1 = qdrant w"
    with c others u(1) show ?thesis
      unfolding only_new_points_def by auto
  next
    assume q: "qdrant w1 = (qdrant w)(COLLECTION_NAME \<mapsto>
                 c\<lparr>points := upsert_points ps (points c)\<rparr>)"
    have "set (upsert_points ps (points c)) \<subseteq> set (committed w @ ps)"
      using upsert_points_subset [of ps "points c"] c(3) by auto
    with q c(2) others u(1) show ?thesis
      unfolding only_new_points_def by auto
  qed
qed

lemma only_new_points_loop:
  "loop env pl i rs pts w = (res, w') \<Longrightarrow> only_new_points store w
     \<Longrightarrow> only_new_points store w'"
proof (induction rs arbitrary: i pts w)
  case Nil
  then show ?case by simp
next
  case (Cons r rs)
  obtain x w1 where bp: "build_point env pl i r w = (x, w1)" by (cases "build_point env pl i r w")
  from only_new_points_build [OF bp Cons.prems(2)] have o1: "only_new_points store w1" .
  show ?case
  proof (cases x)
    case (Inl e)
    with Cons.prems(1) bp have "w' = w1" by simp
    with o1 show ?thesis by simp
  next
    case (Inr p)
    show ?thesis
    proof (cases "length (pts @ [p]) = 100")
      case True
      obtain y w2 where up: "upsert env COLLECTION_NAME True (pts @ [p]) w1 = (y, w2)"
        by (cases "upsert env COLLECTION_NAME True (pts @ [p]) w1")
      from only_new_points_upsert [OF up o1] have o2: "only_new_points store w2" .
      show ?thesis
      proof (cases y)
        case (Inl e)
        with Cons.prems(1) bp Inr True up have "w' = w2" by simp
        with o2 show ?thesis by simp
      next
        case Inr2: (Inr v)
        with Cons.prems(1) bp Inr True up
        have "loop env pl (i + 1) rs [] (print Upserted100 w2) = (res, w')" by simp
        from Cons.IH [OF this] o2 show ?thesis by simp
      qed
    next
      case False
      with Cons.prems(1) bp Inr
      have "loop env pl (i + 1) rs (pts @ [p]) w1 = (res, w')" by simp
      from Cons.IH [OF this o1] show ?thesis .
    qed
  qed
qed

lemma main_only_new_points:
  assumes "create_part_lookup part_rows = Inr pl"
    and "recreate_raises env = None"
    and "main env part_rows loinc_rows store = (res, w')"
  shows "(\<exists>c. qdrant w' COLLECTION_NAME = Some c
            \<and> config c = \<lparr>size_p = 768, distance = COSINE\<rparr>
            \<and> set (points c) \<subseteq> set (committed w'))
       \<and> (\<forall>name. name \<noteq> COLLECTION_NAME \<longrightarrow> qdrant w' name = store name)"
proof -
  let ?w1 = "print (Created COLLECTION_NAME)
      \<lparr>qdrant = store(COLLECTION_NAME \<mapsto>
                 \<lparr>config = \<lparr>size_p = 768, distance = COSINE\<rparr>, points = []\<rparr>),
       embed_log = [], upsert_log = [], stdout = []\<rparr>"
  have o1: "only_new_points store ?w1"
    by (simp add: only_new_points_def committed_def)
  obtain x w2 where lp: "loop env pl 0 loinc_rows [] ?w1 = (x, w2)"
    by (cases "loop env pl 0 loinc_rows [] ?w1")
  from only_new_points_loop [OF lp o1] have o2: "only_new_points store w2" .
  have "only_new_points store w'"
  proof (cases x)
    case (Inl e)
    with assms lp have "w' = w2"
      by (simp add: main_def recreate_collection_def)
    with o2 show ?thesis by simp
  next
    case (Inr pts)
    show ?thesis
    proof (cases "pts = []")
      case True
      with assms lp Inr have "w' = w2"
        by (simp add: main_def recreate_collection_def)
      with o2 show ?thesis by simp
    next
      case False
      obtain y w3 where up: "upsert env COLLECTION_NAME True pts w2 = (y, w3)"
        by (cases "upsert env COLLECTION_NAME True pts w2")
      from only_new_points_upsert [OF up o2] have o3: "only_new_points store w3" .
      from assms lp Inr False up
      have "w' = w3 \<or> w' = print (UpsertedRemaining (length pts)) w3"
        by (cases y) (simp_all add: main_def recreate_collection_def)
      with o3 show ?thesis by auto
    qed
  qed
  then show ?thesis unfolding only_new_points_def by blast
qed

lemma same_calls_print: "same_calls w v \<Longrightarrow> same_calls (print l w) (print l v)"
  by (simp add: same_calls_def)

lemma build_point_same:
  assumes "same_calls w v"
    and "build_point env pl i r w = (x, w1)" and "build_point env pl i r v = (y, v1)"
  shows "x = y \<and> same_calls w1 v1"
  using assms
  by (auto simp: same_calls_def build_point_def get_embedding_def Let_def
      split: sum.splits option.splits)

lemma upsert_same:
  assumes "same_calls w v"
    and "upsert env COLLECTION_NAME wt ps w = (x, w1)"
    and "upsert env COLLECTION_NAME wt ps v = (y, v1)"
  shows "x = y \<and> same_calls w1 v1"
  using assms
  by (auto simp: same_calls_def upsert_def Let_def split: option.splits)

lemma loop_same:
  "same_calls w v \<Longrightarrow> loop env pl i rs pts w = (x, w') \<Longrightarrow> loop env pl i rs pts v = (y, v')
     \<Longrightarrow> x = y \<and> same_calls w' v'"
proof (induction rs arbitrary: i pts w v)
  case Nil
  then show ?case by simp
next
  case (Cons r rs)
  obtain a w1 where bw: "build_point env pl i r w = (a, w1)"
    by (cases "build_point env pl i r w")
  obtain b v1 where bv0: "build_point env pl i r v = (b, v1)"
    by (cases "build_point env pl i r v")
  from build_point_same [OF Cons.prems(1) bw bv0] have ab: "b = a" and s1: "same_calls w1 v1"
    by simp_all
  from bv0 ab have bv: "build_point env pl i r v = (a, v1)" by simp
  show ?case
  proof (cases a)
    case (Inl e)
    from Cons.prems(2) bw Inl have "x = Inl e \<and> w' = w1" by auto
    moreover from Cons.prems(3) bv Inl have "y = Inl e \<and> v' = v1" by auto
    ultimately show ?thesis using s1 by simp
  next
    case (Inr p)
    show ?thesis
    proof (cases "length (pts @ [p]) = 100")
      case True
      obtain c w2 where uw: "upsert env COLLECTION_NAME True (pts @ [p]) w1 = (c, w2)"
        by (cases "upsert env COLLECTION_NAME True (pts @ [p]) w1")
      obtain d v2 where uv0: "upsert env COLLECTION_NAME True (pts @ [p]) v1 = (d, v2)"
        by (cases "upsert env COLLECTION_NAME True (pts @ [p]) v1")
      from upsert_same [OF s1 uw uv0] have cd: "d = c" and s2: "same_calls w2 v2"
        by simp_all
      from uv0 cd have uv: "upsert env COLLECTION_NAME True (pts @ [p]) v1 = (c, v2)" by simp
      show ?thesis
      proof (cases c)
        case (Inl e)
        from Cons.prems(2) bw Inr True uw Inl have "x = Inl e \<and> w' = w2" by auto
        moreover from Cons.prems(3) bv Inr True uv Inl have "y = Inl e \<and> v' = v2" by auto
        ultimately show ?thesis using s2 by simp
      next
        case Inr2: (Inr u)
        from Cons.prems(2) bw Inr True uw Inr2
        have lw: "loop env pl (i + 1) rs [] (print Upserted100 w2) = (x, w')" by simp
        from Cons.prems(3) bv Inr True uv Inr2
        have lv: "loop env pl (i + 1) rs [] (print Upserted100 v2) = (y, v')" by simp
        from Cons.IH [OF same_calls_print [OF s2] lw lv] show ?thesis .
      qed
    next
      case False
      from Cons.prems(2) bw Inr False
      have lw: "loop env pl (i + 1) rs (pts @ [p]) w1 = (x, w')" by simp
      from Cons.prems(3) bv Inr False
      have lv: "loop env pl (i + 1) rs (pts @ [p]) v1 = (y, v')" by simp
      from Cons.IH [OF s1 lw lv] show ?thesis .
    qed
  qed
qed

lemma main_same:
  assumes "main env part_rows loinc_rows store = (x, w')"
    and "main env part_rows loinc_rows store' = (y, v')"
  shows "x = y \<and> embed_log w' = embed_log v' \<and> upsert_log w' = upsert_log v'
       \<and> stdout w' = stdout v'"
proof (cases "create_part_lookup part_rows")
  case (Inl e)
  from assms(1) Inl have "x = Inl e" "embed_log w' = []" "upsert_log w' = []" "stdout w' = []"
    by (auto simp: main_def)
  moreover from assms(2) Inl
  have "y = Inl e" "embed_log v' = []" "upsert_log v' = []" "stdout v' = []"
    by (auto simp: main_def)
  ultimately show ?thesis by simp
next
  case (Inr pl)
  show ?thesis
  proof (cases "recreate_raises env")
    case (Some msg)
    from assms(1) Inr Some have "x = Inr ()" "embed_log w' = []" "upsert_log w' = []"
      "stdout w' = [CouldNotCreate COLLECTION_NAME (ClientError msg)]"
      by (auto simp: main_def recreate_collection_def print_def)
    moreover from assms(2) Inr Some have "y = Inr ()" "embed_log v' = []" "upsert_log v' = []"
      "stdout v' = [CouldNotCreate COLLECTION_NAME (ClientError msg)]"
      by (auto simp: main_def recreate_collection_def print_def)
    ultimately show ?thesis by simp
  next
    case None
    let ?c = "\<lparr>config = \<lparr>size_p = 768, distance = COSINE\<rparr>, points = []\<rparr> :: 'a collection"
    let ?w1 = "print (Created COLLECTION_NAME)
      \<lparr>qdrant = store(COLLECTION_NAME \<mapsto> ?c), embed_log = [], upsert_log = [], stdout = []\<rparr>"
    let ?v1 = "print (Created COLLECTION_NAME)
      \<lparr>qdrant = store'(COLLECTION_NAME \<mapsto> ?c), embed_log = [], upsert_log = [], stdout = []\<rparr>"
    have s1: "same_calls ?w1 ?v1" by (simp add: same_calls_def)
    obtain a w2 where lw: "loop env pl 0 loinc_rows [] ?w1 = (a, w2)"
      by (cases "loop env pl 0 loinc_rows [] ?w1")
    obtain b v2 where lv0: "loop env pl 0 loinc_rows [] ?v1 = (b, v2)"
      by (cases "loop env pl 0 loinc_rows [] ?v1")
    from loop_same [OF s1 lw lv0] have ab: "b = a" and s2: "same_calls w2 v2" by simp_all
    from lv0 ab have lv: "loop env pl 0 loinc_rows [] ?v1 = (a, v2)" by simp
    have mw: "main env part_rows loinc_rows store =
        (case a of Inl e \<Rightarrow> (Inl e, w2)
         | Inr pts \<Rightarrow> if pts \<noteq> [] then
             (case upsert env COLLECTION_NAME True pts w2 of
                (Inl e, w3) \<Rightarrow> (Inl e, w3)
              | (Inr u, w3) \<Rightarrow> (Inr (), print (UpsertedRemaining (length pts)) w3))
           else (Inr (), w2))"
      using Inr None lw by (simp add: main_def recreate_collection_def)
    have mv: "main env part_rows loinc_rows store' =
        (case a of Inl e \<Rightarrow> (Inl e, v2)
         | Inr pts \<Rightarrow> if pts \<noteq> [] then
             (case upsert env COLLECTION_NAME True pts v2 of
                (Inl e, w3) \<Rightarrow> (Inl e, w3)
              | (Inr u, w3) \<Rightarrow> (Inr (), print (UpsertedRemaining (length pts)) w3))
           else (Inr (), v2))"
      using Inr None lv by (simp add: main_def recreate_collection_def)
    show ?thesis
    proof (cases a)
      case (Inl e)
      with assms mw mv have "x = Inl e" "w' = w2" "y = Inl e" "v' = v2" by auto
      with s2 show ?thesis by (simp add: same_calls_def)
    next
      case Inr2: (Inr pts)
      show ?thesis
      proof (cases "pts = []")
        case True
        with assms mw mv Inr2 have "x = Inr ()" "w' = w2" "y = Inr ()" "v' = v2" by auto
        with s2 show ?thesis by (simp add: same_calls_def)
      next
        case False
        obtain c w3 where uw: "upsert env COLLECTION_NAME True pts w2 = (c, w3)"
          by (cases "upsert env COLLECTION_NAME True pts w2")
        obtain d v3 where uv0: "upsert env COLLECTION_NAME True pts v2 = (d, v3)"
          by (cases "upsert env COLLECTION_NAME True pts v2")
        from upsert_same [OF s2 uw uv0] have cd: "d = c" and s3: "same_calls w3 v3"
          by simp_all
        from uv0 cd have uv: "upsert env COLLECTION_NAME True pts v2 = (c, v3)" by simp
        show ?thesis
        proof (cases c)
          case (Inl e)
          with assms mw mv Inr2 False uw uv
          have "x = Inl e" "w' = w3" "y = Inl e" "v' = v3" by auto
          with s3 show ?thesis by (simp add: same_calls_def)
        next
          case Inr3: (Inr u)
          with assms mw mv Inr2 False uw uv
          have "x = Inr ()" "w' = print (UpsertedRemaining (length pts)) w3"
            "y = Inr ()" "v' = print (UpsertedRemaining (length pts)) v3" by auto
          with s3 show ?thesis by (simp add: same_calls_def)
        qed
      qed
    qed
  qed
qed

text \<open>
  Claim C1, as amended: a run does not look at an existing collection. A run that fails
  while loading the part lookup ends there, the store as it was. Otherwise the call
  recreating the collection is made whatever the store holds, and when it does not raise,
  then however the run ends the collection has dimensionality 768 and cosine distance and
  holds only points that this run sent in its upsert calls, whatever it held and however it
  was configured before, the other collections being as they were. The outcome of a run,
  its embedding requests, its upsert calls and its output are the same from any store:
  no existing collection, matching or not, makes a run fail.
\<close>

theorem existing_collection_is_replaced:
  assumes "main env part_rows loinc_rows store = (res, w')"
  shows "(\<forall>e. create_part_lookup part_rows = Inl e
            \<longrightarrow> res = Inl e \<and> qdrant w' = store \<and> upsert_log w' = [])
       \<and> (\<forall>pl. create_part_lookup part_rows = Inr pl \<and> recreate_raises env = None
            \<longrightarrow> (\<exists>c. qdrant w' COLLECTION_NAME = Some c
                    \<and> config c = \<lparr>size_p = 768, distance = COSINE\<rparr>
                    \<and> set (points c) \<subseteq> set (committed w'))
               \<and> (\<forall>name. name \<noteq> COLLECTION_NAME \<longrightarrow> qdrant w' name = store name))
       \<and> (\<forall>store' y v'. main env part_rows loinc_rows store' = (y, v')
            \<longrightarrow> y = res \<and> embed_log v' = embed_log w' \<and> upsert_log v' = upsert_log w'
               \<and> stdout v' = stdout w')"
proof -
  have a: "\<forall>e. create_part_lookup part_rows = Inl e
            \<longrightarrow> res = Inl e \<and> qdrant w' = store \<and> upsert_log w' = []"
    using assms by (auto simp: main_def)
  have b: "\<forall>pl. create_part_lookup part_rows = Inr pl \<and> recreate_raises env = None
            \<longrightarrow> (\<exists>c. qdrant w' COLLECTION_NAME = Some c
                    \<and> config c = \<lparr>size_p = 768, distance = COSINE\<rparr>
                    \<and> set (points c) \<subseteq> set (committed w'))
               \<and> (\<forall>name. name \<noteq> COLLECTION_NAME \<longrightarrow> qdrant w' name = store name)"
    using main_only_new_points [OF _ _ assms] by blast
  have c: "\<forall>store' y v'. main env part_rows loinc_rows store' = (y, v')
            \<longrightarrow> y = res \<and> embed_log v' = embed_log w' \<and> upsert_log v' = upsert_log w'
               \<and> stdout v' = stdout w'"
    using main_same [OF _ assms] by blast
  from a b c show ?thesis by blast
qed

theorem existing_collection_is_replaced_witness:
  "\<exists>w'. main sample_services sample_part_rows [sample_row] matching_store = (Inr (), w')
     \<and> (\<exists>c. qdrant w' COLLECTION_NAME = Some c
           \<and> config c = \<lparr>size_p = 768, distance = COSINE\<rparr>
           \<and> map id_p (points c) = [1]
           \<and> old_point \<notin> set (points c))
     \<and> fst (main sample_services sample_part_rows [sample_row] mismatched_store) = Inr ()"
proof -
  have "\<exists>w'. main sample_services sample_part_rows [sample_row] matching_store = (Inr (), w')
          \<and> map_option (map id_p \<circ> points) (qdrant w' COLLECTION_NAME) = Some [1]"
    by (simp add: run_defs sample_services_def sample_part_rows_def sample_row_def
        matching_store_def COLLECTION_NAME_def)
  then obtain w' where
    run: "main sample_services sample_part_rows [sample_row] matching_store = (Inr (), w')"
    and stored: "map_option (map id_p \<circ> points) (qdrant w' COLLECTION_NAME) = Some [1]"
    by (elim exE conjE)
  have ok: "recreate_raises sample_services = None"
    by (simp add: sample_services_def)
  note t = existing_collection_is_replaced [OF run]
  from t have "\<forall>pl. create_part_lookup sample_part_rows = Inr pl
            \<and> recreate_raises sample_services = None
            \<longrightarrow> (\<exists>c. qdrant w' COLLECTION_NAME = Some c
                    \<and> config c = \<lparr>size_p = 768, distance = COSINE\<rparr>
                    \<and> set (points c) \<subseteq> set (committed w'))
               \<and> (\<forall>name. name \<noteq> COLLECTION_NAME \<longrightarrow> qdrant w' name = matching_store name)"
    by (elim conjE)
  with sample_lookup_eq ok obtain c where c: "qdrant w' COLLECTION_NAME = Some c"
    "config c = \<lparr>size_p = 768, distance = COSINE\<rparr>"
    by blast
  from c(1) stored have s: "map id_p (points c) = [1]" by simp
  have n: "old_point \<notin> set (points c)"
  proof
    assume "old_point \<in> set (points c)"
    then have "id_p old_point \<in> set (map id_p (points c))" by simp
    with s show False by (simp add: old_point_def)
  qed
  obtain y v' where
    other: "main sample_services sample_part_rows [sample_row] mismatched_store = (y, v')"
    by (cases "main sample_services sample_part_rows [sample_row] mismatched_store")
  from t have "\<forall>store' y v'. main sample_services sample_part_rows [sample_row] store' = (y, v')
            \<longrightarrow> y = Inr () \<and> embed_log v' = embed_log w' \<and> upsert_log v' = upsert_log w'
               \<and> stdout v' = stdout w'"
    by (elim conjE)
  with other have "y = Inr ()" by blast
  with other have m: "fst (main sample_services sample_part_rows [sample_row] mismatched_store)
      = Inr ()"
    by simp
  from c s n have "\<exists>c. qdrant w' COLLECTION_NAME = Some c
           \<and> config c = \<lparr>size_p = 768, distance = COSINE\<rparr>
           \<and> map id_p (points c) = [1]
           \<and> old_point \<notin> set (points c)"
    by (intro exI [of _ c] conjI)
  with run m show ?thesis by (intro exI [of _ w'] conjI)
qed

text \<open>
  Claim C1 as stated has a no-op on a matching collection and a fatal error on a mismatched
  one. A run over an empty table empties a matching collection that held a point, and
  replaces a collection of dimensionality 2 and dot-product distance without any error.
\<close>

theorem ensure_collection_counterexample:
  "map_option points (matching_store COLLECTION_NAME) = Some [old_point]
   \<and> fst (main sample_services sample_part_rows [] matching_store) = Inr ()
   \<and> qdrant (snd (main sample_services sample_part_rows [] matching_store)) COLLECTION_NAME
       = Some \<lparr>config = \<lparr>size_p = 768, distance = COSINE\<rparr>, points = []\<rparr>
   \<and> map_option config (mismatched_store COLLECTION_NAME)
       = Some \<lparr>size_p = 2, distance = DOT\<rparr>
   \<and> fst (main sample_services sample_part_rows [] mismatched_store) = Inr ()
   \<and> qdrant (snd (main sample_services sample_part_rows [] mismatched_store)) COLLECTION_NAME
       = Some \<lparr>config = \<lparr>size_p = 768, distance = COSINE\<rparr>, points = []\<rparr>"
  by (simp add: run_defs sample_services_def sample_part_rows_def matching_store_def
      mismatched_store_def COLLECTION_NAME_def)

section \<open>Embedding calls that raise\<close>

lemma answered_final: "requests_answered env w \<Longrightarrow> failure_is_final env res w"
  by (simp add: requests_answered_def failure_is_final_def)

lemma final_Inr: "failure_is_final env (Inr x) w \<Longrightarrow> requests_answered env w"
  by (auto simp: requests_answered_def failure_is_final_def)

lemma final_same_log:
  "failure_is_final env (Inl e :: exn + 'a) w \<Longrightarrow> embed_log w' = embed_log w
     \<Longrightarrow> failure_is_final env (Inl e :: exn + 'b) w'"
  by (simp add: failure_is_final_def request_raised_def)

lemma answered_same_log:
  "requests_answered env w \<Longrightarrow> embed_log w' = embed_log w \<Longrightarrow> requests_answered env w'"
  by (simp add: requests_answered_def request_raised_def)

lemma build_point_requests:
  assumes "build_point env pl i r w = (x, w1)" and "requests_answered env w"
  shows "failure_is_final env x w1"
    and "length (embed_log w1) \<le> length (embed_log w) + 1"
proof -
  have "embed_log w1 = embed_log w
      \<or> (\<exists>tx. embed_log w1 = embed_log w @ [(OLLAMA_MODEL, tx)]
            \<and> (\<forall>e. ollama_embed env (length (embed_log w)) OLLAMA_MODEL tx = Inl e
                   \<longrightarrow> x = Inl e))"
    using assms(1)
    by (auto simp: build_point_def get_embedding_def Let_def
        split: sum.splits option.splits)
  then show "failure_is_final env x w1"
  proof
    assume "embed_log w1 = embed_log w"
    with assms(2) have "requests_answered env w1" by (simp add: answered_same_log)
    then show ?thesis by (rule answered_final)
  next
    assume "\<exists>tx. embed_log w1 = embed_log w @ [(OLLAMA_MODEL, tx)]
            \<and> (\<forall>e. ollama_embed env (length (embed_log w)) OLLAMA_MODEL tx = Inl e
                   \<longrightarrow> x = Inl e)"
    then obtain tx where l: "embed_log w1 = embed_log w @ [(OLLAMA_MODEL, tx)]"
      and f: "\<forall>e. ollama_embed env (length (embed_log w)) OLLAMA_MODEL tx = Inl e \<longrightarrow> x = Inl e"
      by blast
    show ?thesis
      unfolding failure_is_final_def
    proof (intro allI impI)
      fix k e
      assume k: "k < length (embed_log w1)" and r: "request_raised env w1 k e"
      show "x = Inl e \<and> Suc k = length (embed_log w1)"
      proof (cases "k < length (embed_log w)")
        case True
        with r l have "request_raised env w k e"
          by (simp add: request_raised_def nth_append)
        with assms(2) True show ?thesis by (simp add: requests_answered_def)
      next
        case False
        with k l have "k = length (embed_log w)" by simp
        with r l f show ?thesis by (simp add: request_raised_def)
      qed
    qed
  qed
  from assms(1) show "length (embed_log w1) \<le> length (embed_log w) + 1"
    by (auto simp: build_point_def get_embedding_def Let_def
        split: sum.splits option.splits)
qed

lemma upsert_embed_log: "upsert env name wt ps w = (y, w1) \<Longrightarrow> embed_log w1 = embed_log w"
  by (auto simp: upsert_def Let_def split: option.splits)

lemma loop_requests:
  "loop env pl i rs pts w = (res, w') \<Longrightarrow> requests_answered env w
     \<Longrightarrow> failure_is_final env res w'
       \<and> length (embed_log w') \<le> length (embed_log w) + length rs"
proof (induction rs arbitrary: i pts w)
  case Nil
  then show ?case by (auto intro: answered_final)
next
  case (Cons r rs)
  obtain x w1 where bp: "build_point env pl i r w = (x, w1)" by (cases "build_point env pl i r w")
  note b = build_point_requests [OF bp Cons.prems(2)]
  show ?case
  proof (cases x)
    case (Inl e)
    with Cons.prems(1) bp have "res = Inl e" "w' = w1" by simp_all
    with b Inl show ?thesis
      by (auto intro: final_same_log)
  next
    case (Inr p)
    with b(1) have a1: "requests_answered env w1" by (auto intro: final_Inr)
    show ?thesis
    proof (cases "length (pts @ [p]) = 100")
      case True
      obtain y w2 where up: "upsert env COLLECTION_NAME True (pts @ [p]) w1 = (y, w2)"
        by (cases "upsert env COLLECTION_NAME True (pts @ [p]) w1")
      from upsert_embed_log [OF up] have e2: "embed_log w2 = embed_log w1" .
      with a1 have a2: "requests_answered env w2" by (rule answered_same_log)
      show ?thesis
      proof (cases y)
        case (Inl e)
        with Cons.prems(1) bp Inr True up have "w' = w2" by simp
        with a2 e2 b(2) show ?thesis by (auto intro: answered_final)
      next
        case Inr2: (Inr v)
        with Cons.prems(1) bp Inr True up
        have lp: "loop env pl (i + 1) rs [] (print Upserted100 w2) = (res, w')" by simp
        have "requests_answered env (print Upserted100 w2)"
          using a2 by (rule answered_same_log) simp
        from Cons.IH [OF lp this] e2 b(2) show ?thesis by simp
      qed
    next
      case False
      with Cons.prems(1) bp Inr
      have "loop env pl (i + 1) rs (pts @ [p]) w1 = (res, w')" by simp
      from Cons.IH [OF this a1] b(2) show ?thesis by simp
    qed
  qed
qed

text \<open>
  Claim C7, as amended: there is no retry. A run sends at most one embedding request per
  record, and a request on which the client raised is the last request of the run, its
  exception being the exception that escapes \<^verbatim>\<open>main\<close>.
\<close>

theorem failed_embedding_call_ends_the_run:
  assumes "main env part_rows loinc_rows store = (res, w')"
  shows "length (embed_log w') \<le> length loinc_rows
       \<and> (\<forall>k<length (embed_log w'). \<forall>e.
             ollama_embed env k (fst (embed_log w' ! k)) (snd (embed_log w' ! k)) = Inl e
             \<longrightarrow> res = Inl e \<and> Suc k = length (embed_log w'))"
proof -
  let ?w0 = "\<lparr>qdrant = store, embed_log = [], upsert_log = [], stdout = []\<rparr> :: 'a world"
  have goal: "length (embed_log w') \<le> length loinc_rows \<and> failure_is_final env res w'"
  proof (cases "create_part_lookup part_rows")
    case (Inl e)
    with assms have "w' = ?w0" by (simp add: main_def)
    then show ?thesis by (simp add: failure_is_final_def)
  next
    case (Inr pl)
    show ?thesis
    proof (cases "recreate_raises env")
      case (Some msg)
      with assms Inr have "embed_log w' = []"
        by (auto simp: main_def recreate_collection_def)
      then show ?thesis by (simp add: failure_is_final_def)
    next
      case None
      let ?w1 = "print (Created COLLECTION_NAME)
        (?w0\<lparr>qdrant := store(COLLECTION_NAME \<mapsto>
                 \<lparr>config = \<lparr>size_p = 768, distance = COSINE\<rparr>, points = []\<rparr>)\<rparr>)"
      have a1: "requests_answered env ?w1" by (simp add: requests_answered_def)
      obtain x w2 where lp: "loop env pl 0 loinc_rows [] ?w1 = (x, w2)"
        by (cases "loop env pl 0 loinc_rows [] ?w1")
      from loop_requests [OF lp a1]
      have f2: "failure_is_final env x w2" and l2: "length (embed_log w2) \<le> length loinc_rows"
        by simp_all
      show ?thesis
      proof (cases x)
        case (Inl e)
        with assms Inr None lp have "res = Inl e" "w' = w2"
          by (simp_all add: main_def recreate_collection_def)
        with f2 l2 Inl show ?thesis by (auto intro: final_same_log)
      next
        case Inr2: (Inr pts)
        with f2 have a2: "requests_answered env w2" by (auto intro: final_Inr)
        have "embed_log w' = embed_log w2"
        proof (cases "pts = []")
          case True
          with assms Inr None lp Inr2 show ?thesis
            by (simp add: main_def recreate_collection_def)
        next
          case False
          obtain y w3 where up: "upsert env COLLECTION_NAME True pts w2 = (y, w3)"
            by (cases "upsert env COLLECTION_NAME True pts w2")
          from assms Inr None lp Inr2 False up
          have "w' = w3 \<or> w' = print (UpsertedRemaining (length pts)) w3"
            by (cases y) (simp_all add: main_def recreate_collection_def)
          with upsert_embed_log [OF up] show ?thesis by auto
        qed
        with a2 l2 show ?thesis
          by (auto intro: answered_final answered_same_log)
      qed
    qed
  qed
  then show ?thesis
    unfolding failure_is_final_def request_raised_def by simp
qed

theorem failed_embedding_call_ends_the_run_witness:
  "fst (main flaky_services sample_part_rows [sample_row, sample_row] Map.empty)
     = Inl (ClientError ''timed out'')
   \<and> length (embed_log (snd (main flaky_services sample_part_rows [sample_row, sample_row]
        Map.empty))) = 1"
proof -
  obtain res w' where
    run: "main flaky_services sample_part_rows [sample_row, sample_row] Map.empty = (res, w')"
    by (cases "main flaky_services sample_part_rows [sample_row, sample_row] Map.empty")
  have sent: "embed_log w' \<noteq> []"
    using run
    by (auto simp: run_defs flaky_services_def sample_part_rows_def sample_row_def
        COLLECTION_NAME_def)
  have raised: "ollama_embed flaky_services 0 (fst (embed_log w' ! 0)) (snd (embed_log w' ! 0))
      = Inl (ClientError ''timed out'')"
    by (simp add: flaky_services_def)
  from failed_embedding_call_ends_the_run [OF run] sent raised
  have "res = Inl (ClientError ''timed out'') \<and> Suc 0 = length (embed_log w')"
    by auto
  with run show ?thesis by simp
qed

text \<open>
  Claim C7 as stated has up to three attempts. Here the first embedding call times out and
  a second call would be answered: the run ends with the timeout after a single request,
  with no upsert.
\<close>

theorem no_retry_counterexample:
  "fst (main flaky_services sample_part_rows [sample_row] Map.empty)
     = Inl (ClientError ''timed out'')
   \<and> map fst (embed_log (snd (main flaky_services sample_part_rows [sample_row] Map.empty)))
     = [OLLAMA_MODEL]
   \<and> upsert_log (snd (main flaky_services sample_part_rows [sample_row] Map.empty)) = []
   \<and> ollama_embed flaky_services 1 OLLAMA_MODEL ''any text'' = Inr [''embedding'' \<mapsto> [1, 0]]"
  by (simp add: run_defs flaky_services_def sample_part_rows_def sample_row_def
      COLLECTION_NAME_def)

end
